theory Spec2Isabelle
  imports Complex_Main "HOL-Library.AList"
begin

section \<open>The data model of a hierarchical dataset\<close>

text \<open>
  The notebook's second method copies a netCDF dataset group by group with three
  functions, \<open>copy_dims\<close>, \<open>copy_vars\<close> and \<open>recursive_copy\<close>, and replaces every
  variable that has a \<open>time\<close> axis by its mean along that axis. The functions read the
  source through \<open>dimensions.items()\<close>, \<open>variables.items()\<close>, \<open>groups.items()\<close>,
  \<open>ncattrs()\<close>/\<open>getncattr\<close>, \<open>isunlimited()\<close>, \<open>len\<close>, \<open>var.dimensions\<close>,
  \<open>var.datatype\<close> and \<open>var[:]\<close>, and write the destination through
  \<open>createDimension\<close>, \<open>createVariable\<close>, \<open>createGroup\<close>, \<open>setncatts\<close> and
  \<open>new_var[:] = ...\<close>.

  A Python dictionary keeps its entries in insertion order and has one entry per key: it
  is an association list here, and \<open>unique_names\<close> below says that the keys are distinct.
  Values are exact rationals: the rounding of floating-point arithmetic, fill values and
  masks are not modelled. What is modelled of the element type is its kind, integer or
  floating, since an integer variable cannot hold a fractional mean.
\<close>

type_synonym name = string

datatype nctype =
  NC_BYTE | NC_UBYTE | NC_SHORT | NC_USHORT | NC_INT | NC_UINT | NC_INT64 | NC_UINT64
  | NC_FLOAT | NC_DOUBLE

fun is_floating :: "nctype \<Rightarrow> bool" where
  "is_floating NC_FLOAT = True"
| "is_floating NC_DOUBLE = True"
| "is_floating _ = False"

datatype att_value = Text string | Numbers "rat list"

text \<open>
  A dimension is unlimited (\<open>isunlimited()\<close>) or has a fixed length (\<open>len(dim)\<close>). The
  code reads the length of a dimension only when it is not unlimited; the current extent
  of an unlimited dimension follows from the arrays written along it and is not kept
  here.
\<close>

datatype dimension = Unlimited | Fixed nat

text \<open>
  An array as numpy holds it: element type, shape, and the elements in row-major order.
\<close>

record ndarray =
  dtype :: nctype
  shape :: "nat list"
  elems :: "rat list"

text \<open>
  A variable: its dimension names (\<open>var.dimensions\<close>), its attributes and its contents
  (\<open>var[:]\<close>). \<open>var.datatype\<close> is the element type of the contents.
\<close>

record variable =
  var_dimensions :: "name list"
  var_atts :: "(name \<times> att_value) list"
  var_data :: ndarray

definition datatype_of :: "variable \<Rightarrow> nctype" where
  "datatype_of var = dtype (var_data var)"

datatype group =
  Group (grp_atts: "(name \<times> att_value) list")
        (dimensions: "(name \<times> dimension) list")
        (variables: "(name \<times> variable) list")
        (groups: "(name \<times> group) list")

definition set_atts :: "(name \<times> att_value) list \<Rightarrow> group \<Rightarrow> group" where
  "set_atts a g = Group a (dimensions g) (variables g) (groups g)"

definition set_dimensions :: "(name \<times> dimension) list \<Rightarrow> group \<Rightarrow> group" where
  "set_dimensions d g = Group (grp_atts g) d (variables g) (groups g)"

definition set_variables :: "(name \<times> variable) list \<Rightarrow> group \<Rightarrow> group" where
  "set_variables v g = Group (grp_atts g) (dimensions g) v (groups g)"

definition set_groups :: "(name \<times> group) list \<Rightarrow> group \<Rightarrow> group" where
  "set_groups c g = Group (grp_atts g) (dimensions g) (variables g) c"

text \<open>A dataset opened with mode \<open>'w'\<close>, and a group just created, hold nothing.\<close>

definition empty_group :: group where
  "empty_group = Group [] [] [] []"

section \<open>Arrays: indexing and the mean along an axis\<close>

text \<open>The offset of an index tuple in row-major order, and the element read there.\<close>

fun ravel :: "nat list \<Rightarrow> nat list \<Rightarrow> nat" where
  "ravel (n # ns) (i # is) = i * prod_list ns + ravel ns is"
| "ravel _ _ = 0"

definition valid_index :: "nat list \<Rightarrow> nat list \<Rightarrow> bool" where
  "valid_index shp idx = list_all2 (\<lambda>i n. i < n) idx shp"

definition item :: "ndarray \<Rightarrow> nat list \<Rightarrow> rat" where
  "item a idx = elems a ! ravel (shape a) idx"

text \<open>
  The unweighted arithmetic mean of a list of values. On an empty list numpy gives
  \<open>nan\<close>, which an exact rational does not represent: the statements about means below
  are about a non-empty axis.
\<close>

definition arithmetic_mean :: "rat list \<Rightarrow> rat" where
  "arithmetic_mean xs = sum_list xs / of_nat (length xs)"

datatype error =
  DimNotFound name
  | NameInUse name
  | ShapeMismatch name
  | AxisError nat

text \<open>
  \<open>data.mean(axis=k)\<close>: the axis \<open>k\<close> disappears from the shape, and each element of
  the result is the mean of the \<open>shape ! k\<close> elements that differ in position \<open>k\<close> only.
  numpy raises \<open>AxisError\<close> when the array has no axis \<open>k\<close>. The mean of an integer
  array is a float64 array; the mean of a floating array keeps the element type.
\<close>

definition mean_along :: "ndarray \<Rightarrow> nat \<Rightarrow> ndarray" where
  "mean_along a axis =
     (let s = shape a;
          t = s ! axis;
          outer = prod_list (take axis s);
          inner = prod_list (drop (Suc axis) s)
      in \<lparr>dtype = (if is_floating (dtype a) then dtype a else NC_DOUBLE),
          shape = take axis s @ drop (Suc axis) s,
          elems = concat (map (\<lambda>p. map (\<lambda>q.
                    arithmetic_mean (map (\<lambda>j. elems a ! ((p * t + j) * inner + q)) [0..<t]))
                    [0..<inner]) [0..<outer])\<rparr>)"

definition mean :: "ndarray \<Rightarrow> nat \<Rightarrow> error + ndarray" where
  "mean a axis =
     (if length (shape a) \<le> axis then Inl (AxisError axis) else Inr (mean_along a axis))"

text \<open>
  \<open>data.astype(t)\<close>, as the library applies it before writing an array whose element
  type differs from the variable's: a conversion to an integer type truncates towards
  zero. Overflow is not modelled.
\<close>

definition truncate :: "rat \<Rightarrow> rat" where
  "truncate x = (if 0 \<le> x then of_int \<lfloor>x\<rfloor> else of_int \<lceil>x\<rceil>)"

definition astype :: "nctype \<Rightarrow> ndarray \<Rightarrow> ndarray" where
  "astype t a =
     (if dtype a = t then a
      else if is_floating t then a\<lparr>dtype := t\<rparr>
      else a\<lparr>dtype := t, elems := map truncate (elems a)\<rparr>)"

section \<open>The operations of the dataset library on the destination\<close>

text \<open>
  The destination is changed in place, and an exception leaves it as it was when the
  exception was raised. Each operation therefore returns the error, if any, together with
  the destination as it is afterwards.
\<close>

type_synonym outcome = "error option \<times> group"

definition and_then :: "outcome \<Rightarrow> (group \<Rightarrow> outcome) \<Rightarrow> outcome" where
  "and_then r f = (case r of (Some e, g) \<Rightarrow> (Some e, g) | (None, g) \<Rightarrow> f g)"

text \<open>\<open>group.setncatts(d)\<close> sets every attribute of the dictionary \<open>d\<close>, in its order.\<close>

definition setncatts :: "(name \<times> att_value) list \<Rightarrow> group \<Rightarrow> group" where
  "setncatts d g = set_atts (fold (\<lambda>(k, v). AList.update k v) d (grp_atts g)) g"

text \<open>
  \<open>group.createDimension(name, size)\<close>, where the size \<open>None\<close> makes the dimension
  unlimited. The library refuses a name the group already has.
\<close>

definition createDimension :: "name \<Rightarrow> nat option \<Rightarrow> group \<Rightarrow> outcome" where
  "createDimension dimname sz g =
     (if dimname \<in> fst ` set (dimensions g) then (Some (NameInUse dimname), g)
      else (None, set_dimensions (dimensions g @
              [(dimname, case sz of None \<Rightarrow> Unlimited | Some n \<Rightarrow> Fixed n)]) g))"

text \<open>
  \<open>group.createVariable(name, datatype, dims)\<close>. The library looks every dimension name
  up in the group and then in its parents up to the root, and raises \<open>ValueError\<close>
  (cannot find dimension in this group or parent groups) at the first name it does not
  find. \<open>outer\<close> holds the dimension names of the parents of the destination group. A
  variable just created has no contents yet.
\<close>

definition no_data :: "nctype \<Rightarrow> ndarray" where
  "no_data t = \<lparr>dtype = t, shape = [], elems = []\<rparr>"

definition createVariable ::
  "name list \<Rightarrow> name \<Rightarrow> nctype \<Rightarrow> name list \<Rightarrow> group \<Rightarrow> outcome" where
  "createVariable outer varname t dims g =
     (case find (\<lambda>d. d \<notin> set (map fst (dimensions g) @ outer)) dims of
        Some d \<Rightarrow> (Some (DimNotFound d), g)
      | None \<Rightarrow>
          if varname \<in> fst ` set (variables g) then (Some (NameInUse varname), g)
          else (None, set_variables (variables g @
                  [(varname, \<lparr>var_dimensions = dims, var_atts = [], var_data = no_data t\<rparr>)]) g))"

text \<open>
  The handle \<open>new_var\<close> is the variable of that name in the destination group.
  \<open>new_var.setncatts(d)\<close> sets its attributes; \<open>new_var[:] = data\<close> writes the whole
  array, converted to the variable's element type, and fails when the array does not have
  one axis per dimension of the variable. (The library also compares the extents with
  the lengths of the fixed dimensions; the destination's dimensions have the source's
  lengths, so that an array which fits its variable in the source fits it in the
  destination.) The handle always names a variable of the group, which
  \<open>createVariable\<close> has just created: the first case of \<open>setitem\<close> does not arise.
\<close>

definition update_var :: "name \<Rightarrow> (variable \<Rightarrow> variable) \<Rightarrow> group \<Rightarrow> group" where
  "update_var varname f g =
     set_variables (map (\<lambda>(n, v). if n = varname then (n, f v) else (n, v)) (variables g)) g"

definition var_setncatts :: "name \<Rightarrow> (name \<times> att_value) list \<Rightarrow> group \<Rightarrow> group" where
  "var_setncatts varname d g =
     update_var varname
       (\<lambda>v. v\<lparr>var_atts := fold (\<lambda>(k, x). AList.update k x) d (var_atts v)\<rparr>) g"

definition setitem :: "name \<Rightarrow> ndarray \<Rightarrow> group \<Rightarrow> outcome" where
  "setitem varname data g =
     (case map_of (variables g) varname of
        None \<Rightarrow> (Some (NameInUse varname), g)
      | Some v \<Rightarrow>
          if length (shape data) \<noteq> length (var_dimensions v)
          then (Some (ShapeMismatch varname), g)
          else (None, update_var varname
                  (\<lambda>v. v\<lparr>var_data := astype (datatype_of v) data\<rparr>) g))"

text \<open>
  \<open>group.createGroup(name)\<close> returns the child group of that name, creating it empty
  when the group has none. The child is then changed in place; \<open>put_child\<close> is the
  parent with the child as it has become.
\<close>

definition createGroup :: "name \<Rightarrow> group \<Rightarrow> group" where
  "createGroup n g =
     (case map_of (groups g) n of
        Some c \<Rightarrow> g
      | None \<Rightarrow> set_groups (groups g @ [(n, empty_group)]) g)"

definition child :: "name \<Rightarrow> group \<Rightarrow> group" where
  "child n g = (case map_of (groups g) n of Some c \<Rightarrow> c | None \<Rightarrow> empty_group)"

definition put_child :: "name \<Rightarrow> group \<Rightarrow> group \<Rightarrow> group" where
  "put_child n c g = set_groups (AList.update n c (groups g)) g"

section \<open>The notebook's functions\<close>

fun copy_dims_loop :: "(name \<times> dimension) list \<Rightarrow> group \<Rightarrow> outcome" where
  "copy_dims_loop [] dst_group = (None, dst_group)"
| "copy_dims_loop ((dim_name, dimen) # rest) dst_group =
     (if dim_name = ''time'' then copy_dims_loop rest dst_group
      else if dim_name \<in> fst ` set (dimensions dst_group) then copy_dims_loop rest dst_group
      else and_then
             (case dimen of
                Unlimited \<Rightarrow> createDimension dim_name None dst_group
              | Fixed n \<Rightarrow> createDimension dim_name (Some n) dst_group)
             (copy_dims_loop rest))"

definition copy_dims :: "group \<Rightarrow> group \<Rightarrow> outcome" where
  "copy_dims src_group dst_group = copy_dims_loop (dimensions src_group) dst_group"

text \<open>\<open>dims.index('time')\<close>, the first position of the name.\<close>

definition index_of :: "name \<Rightarrow> name list \<Rightarrow> nat" where
  "index_of x xs = length (takeWhile (\<lambda>d. d \<noteq> x) xs)"

text \<open>
  The three statements that the branch for \<open>lat\<close>/\<open>lon\<close> and the last branch share:
  create the variable with the source's type and dimensions, copy the attributes, copy
  the contents.
\<close>

definition copy_as_is :: "name list \<Rightarrow> name \<Rightarrow> variable \<Rightarrow> group \<Rightarrow> outcome" where
  "copy_as_is outer var_name var dst_group =
     and_then (createVariable outer var_name (datatype_of var) (var_dimensions var) dst_group)
       (\<lambda>d. setitem var_name (var_data var) (var_setncatts var_name (var_atts var) d))"

text \<open>The body of the loop of \<open>copy_vars\<close>, for one variable of the source group.\<close>

definition copy_var :: "name list \<Rightarrow> name \<Rightarrow> variable \<Rightarrow> group \<Rightarrow> outcome" where
  "copy_var outer var_name var dst_group =
     (let dims = var_dimensions var in
      if var_name = ''time'' then (None, dst_group)
      else if var_name \<in> set [''lat'', ''lon''] then copy_as_is outer var_name var dst_group
      else if ''time'' \<in> set dims then
        (let new_dims = filter (\<lambda>d. d \<noteq> ''time'') dims in
         and_then (createVariable outer var_name (datatype_of var) new_dims dst_group)
           (\<lambda>d. let d' = var_setncatts var_name (var_atts var) d;
                    data = var_data var;
                    time_axis = index_of ''time'' dims
                in case mean data time_axis of
                     Inl e \<Rightarrow> (Some e, d')
                   | Inr mean_data \<Rightarrow> setitem var_name mean_data d'))
      else copy_as_is outer var_name var dst_group)"

text \<open>
  The third branch after its \<open>createVariable\<close>, as one function of the
  destination: attributes, mean along the first \<open>time\<close> axis, assignment.
\<close>

definition mean_branch :: "name \<Rightarrow> variable \<Rightarrow> group \<Rightarrow> outcome" where
  "mean_branch n v d =
     (case mean (var_data v) (index_of ''time'' (var_dimensions v)) of
        Inl e \<Rightarrow> (Some e, var_setncatts n (var_atts v) d)
      | Inr m \<Rightarrow> setitem n m (var_setncatts n (var_atts v) d))"

fun copy_vars_loop :: "name list \<Rightarrow> (name \<times> variable) list \<Rightarrow> group \<Rightarrow> outcome" where
  "copy_vars_loop outer [] dst_group = (None, dst_group)"
| "copy_vars_loop outer ((var_name, var) # rest) dst_group =
     and_then (copy_var outer var_name var dst_group) (copy_vars_loop outer rest)"

definition copy_vars :: "name list \<Rightarrow> group \<Rightarrow> group \<Rightarrow> outcome" where
  "copy_vars outer src_group dst_group = copy_vars_loop outer (variables src_group) dst_group"

text \<open>
  \<open>recursive_copy\<close> and its loop over the child groups. The dimension names that a
  child of the destination group sees in its parents are those of the destination
  group followed by \<open>outer\<close>.
\<close>

fun recursive_copy :: "name list \<Rightarrow> group \<Rightarrow> group \<Rightarrow> outcome"
  and copy_groups :: "name list \<Rightarrow> (name \<times> group) list \<Rightarrow> group \<Rightarrow> outcome" where
  "recursive_copy outer (Group a d v c) dst_group =
     (case copy_dims (Group a d v c) (setncatts a dst_group) of
        (Some e, g) \<Rightarrow> (Some e, g)
      | (None, g) \<Rightarrow>
          (case copy_vars outer (Group a d v c) g of
             (Some e, g') \<Rightarrow> (Some e, g')
           | (None, g') \<Rightarrow> copy_groups outer c g'))"
| "copy_groups outer [] dst_group = (None, dst_group)"
| "copy_groups outer ((n, subgrp) # rest) dst_group =
     (let g = createGroup n dst_group in
      case recursive_copy (map fst (dimensions g) @ outer) subgrp (child n g) of
        (Some e, dst_subgrp) \<Rightarrow> (Some e, put_child n dst_subgrp g)
      | (None, dst_subgrp) \<Rightarrow> copy_groups outer rest (put_child n dst_subgrp g))"

text \<open>
  The notebook's run: \<open>recursive_copy(src, dst)\<close> on a destination dataset just created,
  whose root has no parent.
\<close>

definition average :: "group \<Rightarrow> outcome" where
  "average src = recursive_copy [] src empty_group"


section \<open>Groups of a tree and properties of a whole tree\<close>

text \<open>The group reached from \<open>g\<close> by a path of child names.\<close>

fun subgroup :: "name list \<Rightarrow> group \<Rightarrow> group option" where
  "subgroup [] g = Some g"
| "subgroup (n # path) g =
     (case map_of (groups g) n of None \<Rightarrow> None | Some c \<Rightarrow> subgroup path c)"

text \<open>No group of the tree has a dimension or a variable named \<open>time\<close>.\<close>

fun time_free :: "group \<Rightarrow> bool" where
  "time_free (Group a d v c) =
     (''time'' \<notin> fst ` set d \<and> ''time'' \<notin> fst ` set v \<and> (\<forall>p \<in> set c. time_free (snd p)))"

text \<open>
  The keys of every dictionary of the tree are distinct, as they are in Python.
\<close>

fun unique_names :: "group \<Rightarrow> bool" where
  "unique_names (Group a d v c) =
     (distinct (map fst a) \<and> distinct (map fst d) \<and> distinct (map fst v) \<and>
      (\<forall>p \<in> set v. distinct (map fst (var_atts (snd p)))) \<and>
      distinct (map fst c) \<and> (\<forall>p \<in> set c. unique_names (snd p)))"

text \<open>The names of the groups of a tree and their nesting.\<close>

datatype topology = Node "(name \<times> topology) list"

fun topology_of :: "group \<Rightarrow> topology" where
  "topology_of (Group a d v c) = Node (map (\<lambda>p. (fst p, topology_of (snd p))) c)"

text \<open>
  Every dimension name of every variable is declared in the variable's group or in one
  of its ancestors; \<open>outer\<close> holds the names declared by the ancestors.
\<close>

fun dims_resolve :: "name list \<Rightarrow> group \<Rightarrow> bool" where
  "dims_resolve outer (Group a d v c) =
     ((\<forall>p \<in> set v. set (var_dimensions (snd p)) \<subseteq> set (map fst d @ outer)) \<and>
      (\<forall>p \<in> set c. dims_resolve (map fst d @ outer) (snd p)))"

text \<open>Every array has one axis per dimension name of its variable.\<close>

fun shapes_fit :: "group \<Rightarrow> bool" where
  "shapes_fit (Group a d v c) =
     ((\<forall>p \<in> set v. length (shape (var_data (snd p))) = length (var_dimensions (snd p))) \<and>
      (\<forall>p \<in> set c. shapes_fit (snd p)))"

text \<open>
  Some variable that is not named \<open>time\<close> has a dimension name other than \<open>time\<close>
  that neither its group nor an ancestor declares.
\<close>

fun unresolved_kept :: "name list \<Rightarrow> group \<Rightarrow> bool" where
  "unresolved_kept outer (Group a d v c) =
     ((\<exists>p \<in> set v. fst p \<noteq> ''time'' \<and>
         (\<exists>x \<in> set (var_dimensions (snd p)). x \<noteq> ''time'' \<and> x \<notin> set (map fst d @ outer))) \<or>
      (\<exists>p \<in> set c. unresolved_kept (map fst d @ outer) (snd p)))"

section \<open>What a completed run leaves in the destination\<close>

text \<open>
  The variable that the third branch of \<open>copy_vars\<close> stores: the \<open>time\<close> entries
  are gone from the dimension names, the attributes are the source's, and the contents
  are the mean along the first \<open>time\<close> axis, converted to the source's element type.
\<close>

definition averaged_variable :: "variable \<Rightarrow> variable" where
  "averaged_variable v =
     \<lparr>var_dimensions = filter (\<lambda>d. d \<noteq> ''time'') (var_dimensions v),
      var_atts = var_atts v,
      var_data = astype (datatype_of v)
                   (mean_along (var_data v) (index_of ''time'' (var_dimensions v)))\<rparr>"

text \<open>
  The variable stored for a source variable that is not named \<open>time\<close>, and the
  tree stored for a source tree. These describe the result; the theorems below relate
  them to \<open>recursive_copy\<close>.
\<close>

definition destination_variable :: "name \<Rightarrow> variable \<Rightarrow> variable" where
  "destination_variable n v =
     (if n = ''lat'' \<or> n = ''lon'' \<or> ''time'' \<notin> set (var_dimensions v) then v
      else averaged_variable v)"

fun destination_of :: "group \<Rightarrow> group" where
  "destination_of (Group a d v c) =
     Group a
       (filter (\<lambda>p. fst p \<noteq> ''time'') d)
       (map (\<lambda>p. (fst p, destination_variable (fst p) (snd p))) (filter (\<lambda>p. fst p \<noteq> ''time'') v))
       (map (\<lambda>p. (fst p, destination_of (snd p))) c)"

text \<open>
  The conditions under which the library accepts the statements of \<open>copy_vars\<close> for
  one variable, \<open>sc\<close> being the dimension names that the destination group sees: the
  names handed to \<open>createVariable\<close> are among them, the array has the axis that
  \<open>mean\<close> removes, and the array assigned has one axis per name. \<open>accepted\<close> says
  so of every variable of a tree.
\<close>

definition var_accepted :: "name list \<Rightarrow> name \<Rightarrow> variable \<Rightarrow> bool" where
  "var_accepted sc n v =
     (n = ''time'' \<or>
      (if n = ''lat'' \<or> n = ''lon'' \<or> ''time'' \<notin> set (var_dimensions v)
       then set (var_dimensions v) \<subseteq> set sc \<and>
            length (shape (var_data v)) = length (var_dimensions v)
       else set (filter (\<lambda>d. d \<noteq> ''time'') (var_dimensions v)) \<subseteq> set sc \<and>
            index_of ''time'' (var_dimensions v) < length (shape (var_data v)) \<and>
            length (shape (var_data v)) - 1 =
              length (filter (\<lambda>d. d \<noteq> ''time'') (var_dimensions v))))"

fun accepted :: "name list \<Rightarrow> group \<Rightarrow> bool" where
  "accepted outer (Group a d v c) =
     ((\<forall>p \<in> set v. var_accepted (map fst (filter (\<lambda>p. fst p \<noteq> ''time'') d) @ outer) (fst p) (snd p)) \<and>
      (\<forall>p \<in> set c. accepted (map fst (filter (\<lambda>p. fst p \<noteq> ''time'') d) @ outer) (snd p)))"

text \<open>
  The value written for a mean \<open>x\<close> into a variable of element type \<open>t\<close>.
\<close>

definition stored_as :: "nctype \<Rightarrow> rat \<Rightarrow> rat" where
  "stored_as t x = (if is_floating t then x else truncate x)"

section \<open>The notebook's run on two files\<close>

text \<open>
  The notebook opens the source file for reading, creates the destination file, which
  is empty then, and calls \<open>recursive_copy(src, dst)\<close>. Every access of the three
  functions to the source is a read, so the source is a value in the functions above;
  the files of the run are a map from file names to datasets, and the run writes the
  destination file.
\<close>

type_synonym files = "string \<Rightarrow> group"

definition notebook_run :: "string \<Rightarrow> string \<Rightarrow> files \<Rightarrow> error option \<times> files" where
  "notebook_run src_name dst_name fs =
     (case recursive_copy [] (fs src_name) empty_group of
        (e, dst) \<Rightarrow> (e, fs(dst_name := dst)))"

section \<open>Example datasets\<close>

definition ex_dims_src :: group where
  "ex_dims_src =
     Group [] [(''time'', Unlimited), (''lat'', Fixed 5), (''lon'', Fixed 4), (''obs'', Unlimited)] [] []"

definition ex_dims_dst :: group where
  "ex_dims_dst = Group [] [(''lon'', Fixed 7)] [] []"

text \<open>
  A dataset like the notebook's: the root declares \<open>time\<close>, \<open>lat\<close> and \<open>lon\<close> and
  holds the coordinate variables; the groups hold variables over \<open>time\<close>.
\<close>

definition demo_precipitation :: variable where
  "demo_precipitation =
     \<lparr>var_dimensions = [''time'', ''lat'', ''lon''],
      var_atts = [(''units'', Text ''mm/hr'')],
      var_data = \<lparr>dtype = NC_FLOAT, shape = [3, 2, 2],
                  elems = [1, 2, 3, 4, 3, 4, 5, 6, 5, 9, 7, 8]\<rparr>\<rparr>"

definition demo_count :: variable where
  "demo_count =
     \<lparr>var_dimensions = [''time'', ''lat''],
      var_atts = [],
      var_data = \<lparr>dtype = NC_INT, shape = [3, 2], elems = [1, 0, 2, 1, 2, 1]\<rparr>\<rparr>"

definition demo_lat :: variable where
  "demo_lat =
     \<lparr>var_dimensions = [''lat''],
      var_atts = [(''units'', Text ''degrees_north'')],
      var_data = \<lparr>dtype = NC_DOUBLE, shape = [2], elems = [10, 20]\<rparr>\<rparr>"

definition demo_lon :: variable where
  "demo_lon =
     \<lparr>var_dimensions = [''lon''],
      var_atts = [(''units'', Text ''degrees_east'')],
      var_data = \<lparr>dtype = NC_DOUBLE, shape = [2], elems = [-90, -80]\<rparr>\<rparr>"

definition demo_time :: variable where
  "demo_time =
     \<lparr>var_dimensions = [''time''],
      var_atts = [],
      var_data = \<lparr>dtype = NC_DOUBLE, shape = [3], elems = [0, 1, 2]\<rparr>\<rparr>"

definition demo_height :: variable where
  "demo_height =
     \<lparr>var_dimensions = [''level''],
      var_atts = [(''units'', Text ''m'')],
      var_data = \<lparr>dtype = NC_SHORT, shape = [1], elems = [2]\<rparr>\<rparr>"

definition demo_observed :: group where
  "demo_observed =
     Group [(''source'', Text ''satellite'')] []
       [(''precipitation'', demo_precipitation), (''count'', demo_count)] []"

definition demo_modeled :: group where
  "demo_modeled = Group [] [(''level'', Fixed 1)] [(''height'', demo_height)] []"

definition demo :: group where
  "demo =
     Group [(''title'', Text ''precipitation'')]
       [(''time'', Unlimited), (''lat'', Fixed 2), (''lon'', Fixed 2)]
       [(''time'', demo_time), (''lat'', demo_lat), (''lon'', demo_lon)]
       [(''observed'', demo_observed), (''modeled'', demo_modeled)]"

text \<open>What the run leaves in the destination for \<open>demo\<close>.\<close>

definition demo_observed_mean :: group where
  "demo_observed_mean =
     Group [(''source'', Text ''satellite'')] []
       [(''precipitation'',
           \<lparr>var_dimensions = [''lat'', ''lon''],
            var_atts = [(''units'', Text ''mm/hr'')],
            var_data = \<lparr>dtype = NC_FLOAT, shape = [2, 2], elems = [3, 5, 5, 6]\<rparr>\<rparr>),
        (''count'',
           \<lparr>var_dimensions = [''lat''],
            var_atts = [],
            var_data = \<lparr>dtype = NC_INT, shape = [2], elems = [1, 0]\<rparr>\<rparr>)] []"

definition demo_mean :: group where
  "demo_mean =
     Group [(''title'', Text ''precipitation'')]
       [(''lat'', Fixed 2), (''lon'', Fixed 2)]
       [(''lat'', demo_lat), (''lon'', demo_lon)]
       [(''observed'', demo_observed_mean), (''modeled'', demo_modeled)]"

text \<open>
  A dataset with a counter over \<open>time\<close>, stored as integers; a track of a moving
  platform, whose \<open>lat\<close> and \<open>lon\<close> vary with \<open>time\<close>; and trees whose variables
  name dimensions that no group declares.
\<close>

definition ex_count_var :: variable where
  "ex_count_var =
     \<lparr>var_dimensions = [''time''], var_atts = [],
      var_data = \<lparr>dtype = NC_INT, shape = [2], elems = [1, 2]\<rparr>\<rparr>"

definition ex_count :: group where
  "ex_count = Group [] [(''time'', Unlimited)] [(''count'', ex_count_var)] []"

definition ex_count_stored :: variable where
  "ex_count_stored =
     \<lparr>var_dimensions = [], var_atts = [],
      var_data = \<lparr>dtype = NC_INT, shape = [], elems = [1]\<rparr>\<rparr>"

definition ex_track_lat :: variable where
  "ex_track_lat =
     \<lparr>var_dimensions = [''time''], var_atts = [],
      var_data = \<lparr>dtype = NC_DOUBLE, shape = [2], elems = [10, 11]\<rparr>\<rparr>"

definition ex_track_lon :: variable where
  "ex_track_lon =
     \<lparr>var_dimensions = [''time''], var_atts = [],
      var_data = \<lparr>dtype = NC_DOUBLE, shape = [2], elems = [-90, -89]\<rparr>\<rparr>"

definition ex_track :: group where
  "ex_track =
     Group [] [(''time'', Unlimited)] [(''lat'', ex_track_lat), (''lon'', ex_track_lon)] []"

definition ex_no_time_declared :: group where
  "ex_no_time_declared =
     Group [] []
       [(''rain'', \<lparr>var_dimensions = [''time''], var_atts = [],
                     var_data = \<lparr>dtype = NC_DOUBLE, shape = [2], elems = [1, 3]\<rparr>\<rparr>)] []"

definition ex_time_over_depth :: group where
  "ex_time_over_depth =
     Group [] []
       [(''time'', \<lparr>var_dimensions = [''depth''], var_atts = [],
                     var_data = \<lparr>dtype = NC_DOUBLE, shape = [2], elems = [0, 1]\<rparr>\<rparr>)] []"

definition ex_depth_missing :: group where
  "ex_depth_missing =
     Group [(''title'', Text ''sea'')] [(''lat'', Fixed 2)]
       [(''lat'', demo_lat),
        (''sst'', \<lparr>var_dimensions = [''lat'', ''depth''], var_atts = [],
                    var_data = \<lparr>dtype = NC_DOUBLE, shape = [2, 1], elems = [20, 21]\<rparr>\<rparr>)] []"

definition ex_files :: files where
  "ex_files = (\<lambda>_. empty_group)(''precipitation.nc4'' := demo, ''precipitation_mean.nc4'' := ex_count)"

definition ex_files_other :: files where
  "ex_files_other = (\<lambda>_. empty_group)(''precipitation.nc4'' := demo)"

section \<open>Properties of the library operations\<close>

lemma fields_set [simp]:
  "grp_atts (set_atts a g) = a" "dimensions (set_atts a g) = dimensions g"
  "variables (set_atts a g) = variables g" "groups (set_atts a g) = groups g"
  "grp_atts (set_dimensions d g) = grp_atts g" "dimensions (set_dimensions d g) = d"
  "variables (set_dimensions d g) = variables g" "groups (set_dimensions d g) = groups g"
  "grp_atts (set_variables v g) = grp_atts g" "dimensions (set_variables v g) = dimensions g"
  "variables (set_variables v g) = v" "groups (set_variables v g) = groups g"
  "grp_atts (set_groups c g) = grp_atts g" "dimensions (set_groups c g) = dimensions g"
  "variables (set_groups c g) = variables g" "groups (set_groups c g) = c"
  by (simp_all add: set_atts_def set_dimensions_def set_variables_def set_groups_def)

lemma and_then_simps [simp]:
  "and_then (None, g) f = f g" "and_then (Some e, g) f = (Some e, g)"
  by (simp_all add: and_then_def)

lemma fst_and_then:
  "fst (and_then r f) = None \<longleftrightarrow> fst r = None \<and> fst (f (snd r)) = None"
  by (cases r) (auto simp: and_then_def split: option.splits)

lemma createDimension_fresh:
  "n \<notin> fst ` set (dimensions g) \<Longrightarrow>
   createDimension n sz g =
     (None, set_dimensions (dimensions g @ [(n, case sz of None \<Rightarrow> Unlimited | Some k \<Rightarrow> Fixed k)]) g)"
  by (simp add: createDimension_def)

lemma copy_dims_loop_ok: "fst (copy_dims_loop ds g) = None"
  by (induction ds g rule: copy_dims_loop.induct)
     (auto simp: createDimension_fresh split: dimension.splits)


lemma createDimension_ok:
  "n \<notin> fst ` set (dimensions g) \<Longrightarrow>
   (case dimen of Unlimited \<Rightarrow> createDimension n None g
               | Fixed k \<Rightarrow> createDimension n (Some k) g) =
     (None, set_dimensions (dimensions g @ [(n, dimen)]) g)"
  by (cases dimen) (simp_all add: createDimension_fresh)

lemma copy_dims_loop_lookup:
  "map_of (dimensions (snd (copy_dims_loop ds g))) n =
     (case map_of (dimensions g) n of
        Some x \<Rightarrow> Some x
      | None \<Rightarrow> if n = ''time'' then None else map_of ds n)"
proof (induction ds arbitrary: g)
  case Nil
  then show ?case by (simp split: option.splits)
next
  case (Cons p rest)
  obtain dim_name dimen where p: "p = (dim_name, dimen)" by (cases p)
  show ?case
  proof (cases "dim_name = ''time''")
    case True
    then show ?thesis using Cons.IH [of g] p by (simp split: option.splits)
  next
    case nt: False
    show ?thesis
    proof (cases "dim_name \<in> fst ` set (dimensions g)")
      case True
      then have "map_of (dimensions g) dim_name \<noteq> None"
        by (simp add: map_of_eq_None_iff)
      then show ?thesis using Cons.IH [of g] p nt True
        by (auto split: option.splits)
    next
      case False
      then have none: "map_of (dimensions g) dim_name = None"
        by (simp add: map_of_eq_None_iff)
      have step: "copy_dims_loop (p # rest) g =
          copy_dims_loop rest (set_dimensions (dimensions g @ [(dim_name, dimen)]) g)"
        using p nt False by (simp add: createDimension_ok)
      show ?thesis
        unfolding step Cons.IH
        using none p nt by (auto simp: map_add_def split: option.splits)
    qed
  qed
qed

lemma copy_dims_loop_rest:
  "grp_atts (snd (copy_dims_loop ds g)) = grp_atts g \<and>
   variables (snd (copy_dims_loop ds g)) = variables g \<and>
   groups (snd (copy_dims_loop ds g)) = groups g"
  by (induction ds g rule: copy_dims_loop.induct)
     (simp_all add: createDimension_ok)




section \<open>The reduction dimension never reaches the destination\<close>

lemma snd_and_then:
  "snd (and_then r f) = (if fst r = None then snd (f (snd r)) else snd r)"
  by (cases r) (auto simp: and_then_def split: option.splits)

lemma time_free_sel:
  "time_free g \<longleftrightarrow>
     ''time'' \<notin> fst ` set (dimensions g) \<and> ''time'' \<notin> fst ` set (variables g) \<and>
     (\<forall>p \<in> set (groups g). time_free (snd p))"
  by (cases g) simp

lemma time_freeI:
  "''time'' \<notin> fst ` set (dimensions g) \<Longrightarrow> ''time'' \<notin> fst ` set (variables g) \<Longrightarrow>
   (\<And>p. p \<in> set (groups g) \<Longrightarrow> time_free (snd p)) \<Longrightarrow> time_free g"
  by (cases g) simp

lemma time_freeD:
  assumes "time_free g"
  shows "''time'' \<notin> fst ` set (dimensions g)" "''time'' \<notin> fst ` set (variables g)"
    "\<And>p. p \<in> set (groups g) \<Longrightarrow> time_free (snd p)"
  using assms by (cases g; simp)+

lemma setncatts_fields [simp]:
  "dimensions (setncatts a g) = dimensions g"
  "variables (setncatts a g) = variables g"
  "groups (setncatts a g) = groups g"
  by (simp_all add: setncatts_def)

lemma update_var_fields [simp]:
  "grp_atts (update_var n f g) = grp_atts g"
  "dimensions (update_var n f g) = dimensions g"
  "groups (update_var n f g) = groups g"
  "map fst (variables (update_var n f g)) = map fst (variables g)"
  by (auto simp: update_var_def)

lemma update_var_names [simp]:
  "fst ` set (variables (update_var n f g)) = fst ` set (variables g)"
  using update_var_fields(4) [of n f g] by (metis list.set_map)

lemma var_setncatts_fields [simp]:
  "grp_atts (var_setncatts n d g) = grp_atts g"
  "dimensions (var_setncatts n d g) = dimensions g"
  "groups (var_setncatts n d g) = groups g"
  "fst ` set (variables (var_setncatts n d g)) = fst ` set (variables g)"
  by (simp_all add: var_setncatts_def)

lemma createVariable_frame:
  "grp_atts (snd (createVariable outer n t dims g)) = grp_atts g \<and>
   dimensions (snd (createVariable outer n t dims g)) = dimensions g \<and>
   groups (snd (createVariable outer n t dims g)) = groups g \<and>
   fst ` set (variables (snd (createVariable outer n t dims g))) \<subseteq> insert n (fst ` set (variables g))"
  by (auto simp: createVariable_def split: option.splits)

lemma setitem_frame:
  "grp_atts (snd (setitem n data g)) = grp_atts g \<and>
   dimensions (snd (setitem n data g)) = dimensions g \<and>
   groups (snd (setitem n data g)) = groups g \<and>
   fst ` set (variables (snd (setitem n data g))) = fst ` set (variables g)"
  by (simp add: setitem_def split: option.splits)

lemma copy_as_is_frame:
  "grp_atts (snd (copy_as_is outer n v g)) = grp_atts g \<and>
   dimensions (snd (copy_as_is outer n v g)) = dimensions g \<and>
   groups (snd (copy_as_is outer n v g)) = groups g \<and>
   fst ` set (variables (snd (copy_as_is outer n v g))) \<subseteq> insert n (fst ` set (variables g))"
  using createVariable_frame [of outer n "datatype_of v" "var_dimensions v" g]
  by (simp add: copy_as_is_def snd_and_then setitem_frame)


lemma copy_var_skip [simp]: "copy_var outer ''time'' v g = (None, g)"
  by (simp add: copy_var_def)

lemma copy_var_verbatim:
  "n \<noteq> ''time'' \<Longrightarrow> n = ''lat'' \<or> n = ''lon'' \<or> ''time'' \<notin> set (var_dimensions v) \<Longrightarrow>
   copy_var outer n v g = copy_as_is outer n v g"
  by (auto simp: copy_var_def Let_def)

lemma copy_var_reduced:
  "n \<noteq> ''time'' \<Longrightarrow> n \<noteq> ''lat'' \<Longrightarrow> n \<noteq> ''lon'' \<Longrightarrow> ''time'' \<in> set (var_dimensions v) \<Longrightarrow>
   copy_var outer n v g =
     and_then (createVariable outer n (datatype_of v)
                 (filter (\<lambda>d. d \<noteq> ''time'') (var_dimensions v)) g)
       (mean_branch n v)"
  by (simp add: copy_var_def Let_def mean_branch_def [abs_def])

lemma mean_branch_frame:
  "grp_atts (snd (mean_branch n v g)) = grp_atts g \<and>
   dimensions (snd (mean_branch n v g)) = dimensions g \<and>
   groups (snd (mean_branch n v g)) = groups g \<and>
   fst ` set (variables (snd (mean_branch n v g))) = fst ` set (variables g)"
  by (cases "mean (var_data v) (index_of ''time'' (var_dimensions v))")
     (simp_all add: mean_branch_def setitem_frame)

lemma copy_var_frame:
  "grp_atts (snd (copy_var outer n v g)) = grp_atts g \<and>
   dimensions (snd (copy_var outer n v g)) = dimensions g \<and>
   groups (snd (copy_var outer n v g)) = groups g \<and>
   fst ` set (variables (snd (copy_var outer n v g))) \<subseteq> insert n (fst ` set (variables g))"
proof -
  consider (skip) "n = ''time''"
    | (as_is) "n \<noteq> ''time''" "n = ''lat'' \<or> n = ''lon'' \<or> ''time'' \<notin> set (var_dimensions v)"
    | (avg) "n \<noteq> ''time''" "n \<noteq> ''lat''" "n \<noteq> ''lon''" "''time'' \<in> set (var_dimensions v)"
    by blast
  then show ?thesis
  proof cases
    case skip
    then show ?thesis by auto
  next
    case as_is
    then show ?thesis using copy_as_is_frame [of outer n v g] by (simp add: copy_var_verbatim)
  next
    case avg
    let ?c = "createVariable outer n (datatype_of v)
                (filter (\<lambda>d. d \<noteq> ''time'') (var_dimensions v)) g"
    show ?thesis
      unfolding copy_var_reduced [OF avg] snd_and_then
      using createVariable_frame [of outer n "datatype_of v"
              "filter (\<lambda>d. d \<noteq> ''time'') (var_dimensions v)" g]
            mean_branch_frame [of n v "snd ?c"]
      by (cases "fst ?c = None") simp_all
  qed
qed

lemma copy_vars_loop_frame:
  "grp_atts (snd (copy_vars_loop outer vs g)) = grp_atts g \<and>
   dimensions (snd (copy_vars_loop outer vs g)) = dimensions g \<and>
   groups (snd (copy_vars_loop outer vs g)) = groups g"
proof (induction vs arbitrary: g)
  case Nil
  then show ?case by simp
next
  case (Cons p vs)
  obtain n v where p: "p = (n, v)" by (cases p)
  show ?case using Cons.IH [of "snd (copy_var outer n v g)"] copy_var_frame [of outer n v g]
    by (simp add: p snd_and_then)
qed

lemma copy_vars_loop_no_time:
  "''time'' \<notin> fst ` set (variables g) \<Longrightarrow>
   ''time'' \<notin> fst ` set (variables (snd (copy_vars_loop outer vs g)))"
proof (induction vs arbitrary: g)
  case Nil
  then show ?case by simp
next
  case (Cons p vs)
  obtain n v where p: "p = (n, v)" by (cases p)
  have "''time'' \<notin> fst ` set (variables (snd (copy_var outer n v g)))"
  proof (cases "n = ''time''")
    case True
    then show ?thesis using Cons.prems by simp
  next
    case False
    then show ?thesis using copy_var_frame [of outer n v g] Cons.prems by blast
  qed
  then show ?case using Cons.IH [of "snd (copy_var outer n v g)"] Cons.prems
    by (simp add: p snd_and_then)
qed

lemma copy_dims_loop_no_time:
  assumes "''time'' \<notin> fst ` set (dimensions g)"
  shows "''time'' \<notin> fst ` set (dimensions (snd (copy_dims_loop ds g)))"
proof -
  have "map_of (dimensions g) ''time'' = None"
    using assms by (rule map_of_eq_None_iff [THEN iffD2])
  then have "map_of (dimensions (snd (copy_dims_loop ds g))) ''time'' = None"
    by (simp add: copy_dims_loop_lookup)
  then show ?thesis
    by (rule map_of_eq_None_iff [THEN iffD1])
qed

lemma time_free_createGroup:
  assumes "time_free g"
  shows "time_free (createGroup n g)"
proof (rule time_freeI)
  show "''time'' \<notin> fst ` set (dimensions (createGroup n g))"
    using time_freeD(1) [OF assms] by (simp add: createGroup_def split: option.splits)
  show "''time'' \<notin> fst ` set (variables (createGroup n g))"
    using time_freeD(2) [OF assms] by (simp add: createGroup_def split: option.splits)
  fix p
  assume "p \<in> set (groups (createGroup n g))"
  then have "p \<in> set (groups g) \<or> p = (n, empty_group)"
    by (auto simp: createGroup_def split: option.splits)
  then show "time_free (snd p)"
    using time_freeD(3) [OF assms, of p] by (auto simp: empty_group_def)
qed

lemma time_free_child:
  assumes "time_free g"
  shows "time_free (child n g)"
proof (cases "map_of (groups g) n")
  case None
  then show ?thesis by (simp add: child_def empty_group_def)
next
  case (Some c)
  then have "(n, c) \<in> set (groups g)" by (rule map_of_SomeD)
  then show ?thesis using time_freeD(3) [OF assms, of "(n, c)"] Some by (simp add: child_def)
qed

lemma set_update_subset: "set (AList.update k v al) \<subseteq> insert (k, v) (set al)"
  by (induction al) auto

lemma time_free_put_child:
  assumes "time_free g" and "time_free c"
  shows "time_free (put_child n c g)"
proof (rule time_freeI)
  show "''time'' \<notin> fst ` set (dimensions (put_child n c g))"
    using time_freeD(1) [OF assms(1)] by (simp add: put_child_def)
  show "''time'' \<notin> fst ` set (variables (put_child n c g))"
    using time_freeD(2) [OF assms(1)] by (simp add: put_child_def)
  fix p
  assume "p \<in> set (groups (put_child n c g))"
  then have "p \<in> set (groups g) \<or> p = (n, c)"
    using set_update_subset [of n c "groups g"] by (auto simp: put_child_def)
  then show "time_free (snd p)"
    using time_freeD(3) [OF assms(1), of p] assms(2) by auto
qed

lemma time_free_fields:
  assumes "time_free g"
    and "''time'' \<notin> fst ` set (dimensions h)" and "''time'' \<notin> fst ` set (variables h)"
    and "groups h = groups g"
  shows "time_free h"
proof (rule time_freeI)
  fix p
  assume "p \<in> set (groups h)"
  then show "time_free (snd p)" using time_freeD(3) [OF assms(1), of p] assms(4) by simp
qed (use assms in simp_all)

lemma time_free_before_children:
  assumes "time_free dst"
  shows "time_free (snd (copy_vars outer src (snd (copy_dims src (setncatts (grp_atts src) dst)))))"
proof -
  let ?g1 = "setncatts (grp_atts src) dst"
  let ?g2 = "snd (copy_dims src ?g1)"
  let ?g3 = "snd (copy_vars outer src ?g2)"
  have 1: "time_free ?g1"
    by (rule time_free_fields [OF assms]) (simp_all add: time_freeD [OF assms])
  have 2: "time_free ?g2"
  proof (rule time_free_fields [OF 1])
    show "''time'' \<notin> fst ` set (dimensions ?g2)"
      using copy_dims_loop_no_time [OF time_freeD(1) [OF 1], of "dimensions src"]
      by (simp add: copy_dims_def)
    show "''time'' \<notin> fst ` set (variables ?g2)"
      using time_freeD(2) [OF 1] copy_dims_loop_rest [of "dimensions src" ?g1]
      by (simp add: copy_dims_def)
    show "groups ?g2 = groups ?g1"
      using copy_dims_loop_rest [of "dimensions src" ?g1] by (simp add: copy_dims_def)
  qed
  show "time_free ?g3"
  proof (rule time_free_fields [OF 2])
    show "''time'' \<notin> fst ` set (dimensions ?g3)"
      using time_freeD(1) [OF 2] copy_vars_loop_frame [of outer "variables src" ?g2]
      by (simp add: copy_vars_def)
    show "''time'' \<notin> fst ` set (variables ?g3)"
      using copy_vars_loop_no_time [OF time_freeD(2) [OF 2], of outer "variables src"]
      by (simp add: copy_vars_def)
    show "groups ?g3 = groups ?g2"
      using copy_vars_loop_frame [of outer "variables src" ?g2] by (simp add: copy_vars_def)
  qed
qed

lemma time_free_preserved:
  "time_free dst \<Longrightarrow> time_free (snd (recursive_copy outer src dst))"
  "time_free dst \<Longrightarrow> time_free (snd (copy_groups outer c dst))"
proof (induction outer src dst and outer c dst rule: recursive_copy_copy_groups.induct)
  case (1 outer a d v c dst_group)
  let ?src = "Group a d v c"
  let ?g2 = "snd (copy_dims ?src (setncatts a dst_group))"
  let ?g3 = "snd (copy_vars outer ?src ?g2)"
  have ok: "fst (copy_dims ?src (setncatts a dst_group)) = None"
    by (simp add: copy_dims_def copy_dims_loop_ok)
  have tf: "time_free ?g3" using time_free_before_children [OF "1.prems", of outer ?src] by simp
  show ?case
  proof (cases "fst (copy_vars outer ?src ?g2)")
    case None
    have "time_free (snd (copy_groups outer c ?g3))"
      using "1.IH" [of None ?g2 None ?g3] ok None tf
      by (simp add: prod_eq_iff)
    then show ?thesis using ok None by (simp add: prod_eq_iff split: prod.splits option.splits)
  next
    case (Some e)
    then show ?thesis using ok tf by (auto simp add: prod_eq_iff split: prod.splits option.splits)
  qed
next
  case (2 outer dst_group)
  then show ?case by simp
next
  case (3 outer n subgrp rest dst_group)
  let ?g = "createGroup n dst_group"
  let ?r = "recursive_copy (map fst (dimensions ?g) @ outer) subgrp (child n ?g)"
  have g: "time_free ?g" using "3.prems" by (rule time_free_createGroup)
  have c: "time_free (snd ?r)" using "3.IH"(1) [OF refl] g by (simp add: time_free_child)
  have p: "time_free (put_child n (snd ?r) ?g)" using g c by (rule time_free_put_child)
  show ?case
  proof (cases "fst ?r")
    case None
    then have "time_free (snd (copy_groups outer rest (put_child n (snd ?r) ?g)))"
      using "3.IH"(2) [OF refl, of None "snd ?r"] p by (simp add: prod_eq_iff)
    then show ?thesis using None by (simp add: Let_def prod_eq_iff split: prod.splits option.splits)
  next
    case (Some e)
    then show ?thesis using p by (auto simp add: Let_def prod_eq_iff split: prod.splits option.splits)
  qed
qed

lemma time_free_subgroup:
  "time_free g \<Longrightarrow> subgroup path g = Some h \<Longrightarrow> time_free h"
proof (induction path arbitrary: g)
  case Nil
  then show ?case by simp
next
  case (Cons n path)
  from Cons.prems(2) obtain c where c: "map_of (groups g) n = Some c" "subgroup path c = Some h"
    by (auto split: option.splits)
  have "time_free c" using time_freeD(3) [OF Cons.prems(1), of "(n, c)"] map_of_SomeD [OF c(1)] by simp
  then show ?case using Cons.IH c(2) by blast
qed

text \<open>
  Claim C4. Whether the run completes or aborts, no group of the destination has a
  dimension named \<open>time\<close> or a variable named \<open>time\<close>.
\<close>

theorem time_never_in_destination:
  assumes "subgroup path (snd (average src)) = Some g"
  shows "''time'' \<notin> fst ` set (dimensions g) \<and> ''time'' \<notin> fst ` set (variables g)"
proof -
  have "time_free empty_group" by (simp add: empty_group_def)
  then have "time_free (snd (average src))"
    unfolding average_def by (rule time_free_preserved(1))
  then have "time_free g" using assms by (rule time_free_subgroup)
  then show ?thesis using time_freeD(1,2) by blast
qed

lemma average_demo: "average demo = (None, demo_mean)"
  by code_simp

theorem time_never_in_destination_witness:
  "subgroup [''observed''] (snd (average demo)) = Some demo_observed_mean \<and>
   ''time'' \<notin> fst ` set (dimensions demo_observed_mean) \<and>
   ''time'' \<notin> fst ` set (variables demo_observed_mean)"
proof -
  have sub: "subgroup [''observed''] (snd (average demo)) = Some demo_observed_mean"
    by (simp add: average_demo demo_mean_def)
  show ?thesis using sub time_never_in_destination [OF sub] by simp
qed

section \<open>A run on an empty destination\<close>

lemma group_induct [case_names Group]:
  assumes "\<And>a d v c. (\<And>p. p \<in> set c \<Longrightarrow> P (snd p)) \<Longrightarrow> P (Group a d v c)"
  shows "P g"
  by (induction g) (auto intro!: assms)
lemma update_fresh: "k \<notin> fst ` set al \<Longrightarrow> AList.update k v al = al @ [(k, v)]"
  by (induction al) auto

lemma update_last_entry:
  "k \<notin> fst ` set al \<Longrightarrow> AList.update k x (al @ [(k, y)]) = al @ [(k, x)]"
  by (induction al) auto

lemma map_of_last: "k \<notin> fst ` set al \<Longrightarrow> map_of (al @ [(k, x)]) k = Some x"
  by (induction al) auto

lemma fold_update_distinct:
  "distinct (map fst (acc @ d)) \<Longrightarrow> fold (\<lambda>(k, v). AList.update k v) d acc = acc @ d"
proof (induction d arbitrary: acc)
  case Nil
  then show ?case by simp
next
  case (Cons p d)
  obtain k v where p: "p = (k, v)" by (cases p)
  have fresh: "k \<notin> fst ` set acc" using Cons.prems p by auto
  have "distinct (map fst ((acc @ [(k, v)]) @ d))" using Cons.prems p by auto
  then have "fold (\<lambda>(k, v). AList.update k v) d (acc @ [(k, v)]) = (acc @ [(k, v)]) @ d"
    by (rule Cons.IH)
  then show ?case using fresh p by (simp add: update_fresh)
qed

lemma set_same [simp]:
  "set_dimensions (dimensions g) g = g" "set_variables (variables g) g = g"
  "set_groups (groups g) g = g" "set_atts (grp_atts g) g = g"
  by (cases g; simp add: set_dimensions_def set_variables_def set_groups_def set_atts_def)+

lemma set_twice [simp]:
  "set_dimensions d (set_dimensions d' g) = set_dimensions d g"
  "set_variables v (set_variables v' g) = set_variables v g"
  "set_groups c (set_groups c' g) = set_groups c g"
  by (simp_all add: set_dimensions_def set_variables_def set_groups_def)

lemma setncatts_empty:
  "distinct (map fst a) \<Longrightarrow> setncatts a empty_group = Group a [] [] []"
  using fold_update_distinct [of "[]" a]
  by (simp add: setncatts_def empty_group_def set_atts_def)

lemma copy_dims_loop_fresh:
  "distinct (map fst ds) \<Longrightarrow> fst ` set ds \<inter> fst ` set (dimensions g) = {} \<Longrightarrow>
   copy_dims_loop ds g =
     (None, set_dimensions (dimensions g @ filter (\<lambda>p. fst p \<noteq> ''time'') ds) g)"
proof (induction ds arbitrary: g)
  case Nil
  then show ?case by simp
next
  case (Cons p ds)
  obtain n x where p: "p = (n, x)" by (cases p)
  have d: "distinct (map fst ds)" and nds: "n \<notin> fst ` set ds" and ng: "n \<notin> fst ` set (dimensions g)"
    and disj: "fst ` set ds \<inter> fst ` set (dimensions g) = {}"
    using Cons.prems p by auto
  show ?case
  proof (cases "n = ''time''")
    case True
    then show ?thesis using Cons.IH [OF d disj] p by simp
  next
    case False
    let ?g = "set_dimensions (dimensions g @ [(n, x)]) g"
    have "fst ` set ds \<inter> fst ` set (dimensions ?g) = {}" using disj nds by auto
    from Cons.IH [OF d this] show ?thesis using False ng p
      by (simp add: createDimension_ok)
  qed
qed

lemma update_var_last:
  "n \<notin> fst ` set vs \<Longrightarrow>
   update_var n f (set_variables (vs @ [(n, x)]) g) = set_variables (vs @ [(n, f x)]) g"
proof -
  assume "n \<notin> fst ` set vs"
  then have "map (\<lambda>(m, v). if m = n then (m, f v) else (m, v)) vs = vs"
    by (induction vs) auto
  then show ?thesis by (simp add: update_var_def)
qed

lemma createVariable_eq:
  assumes "n \<notin> fst ` set (variables g)"
  shows "createVariable outer n t dims g =
     (if set dims \<subseteq> set (map fst (dimensions g) @ outer)
      then (None, set_variables (variables g @
              [(n, \<lparr>var_dimensions = dims, var_atts = [], var_data = no_data t\<rparr>)]) g)
      else (Some (DimNotFound (the (find (\<lambda>d. d \<notin> set (map fst (dimensions g) @ outer)) dims))), g))"
proof (cases "find (\<lambda>d. d \<notin> set (map fst (dimensions g) @ outer)) dims")
  case None
  then have "set dims \<subseteq> set (map fst (dimensions g) @ outer)"
    unfolding find_None_iff by blast
  then show ?thesis using None assms unfolding createVariable_def by simp
next
  case (Some d)
  then have "\<not> set dims \<subseteq> set (map fst (dimensions g) @ outer)"
    unfolding find_Some_iff by (metis nth_mem subsetD)
  then show ?thesis using Some unfolding createVariable_def by simp
qed

lemma var_setncatts_last:
  "n \<notin> fst ` set vs \<Longrightarrow> distinct (map fst d) \<Longrightarrow>
   var_setncatts n d (set_variables (vs @
       [(n, \<lparr>var_dimensions = dims, var_atts = [], var_data = x\<rparr>)]) g) =
     set_variables (vs @ [(n, \<lparr>var_dimensions = dims, var_atts = d, var_data = x\<rparr>)]) g"
  using fold_update_distinct [of "[]" d]
  by (simp add: var_setncatts_def update_var_last)

lemma setitem_last:
  assumes "n \<notin> fst ` set vs"
  shows "setitem n data (set_variables (vs @ [(n, v)]) g) =
     (if length (shape data) \<noteq> length (var_dimensions v)
      then (Some (ShapeMismatch n), set_variables (vs @ [(n, v)]) g)
      else (None, set_variables (vs @ [(n, v\<lparr>var_data := astype (datatype_of v) data\<rparr>)]) g))"
proof -
  have "map_of (variables (set_variables (vs @ [(n, v)]) g)) n = Some v"
    using map_of_last [OF assms] by (simp del: map_of_append)
  then show ?thesis
    unfolding setitem_def by (simp add: update_var_last [OF assms] del: map_of_append)
qed

lemma astype_shape [simp]: "shape (astype t a) = shape a"
  by (simp add: astype_def)

lemma astype_same [simp]: "astype (dtype a) a = a"
  by (simp add: astype_def)

lemma variable_eta [simp]:
  "\<lparr>var_dimensions = var_dimensions v, var_atts = var_atts v, var_data = var_data v\<rparr> = v"
  by (cases v) simp

lemma copy_as_is_ok:
  assumes "n \<notin> fst ` set (variables g)" and "distinct (map fst (var_atts v))"
    and "set (var_dimensions v) \<subseteq> set (map fst (dimensions g) @ outer)"
    and "length (shape (var_data v)) = length (var_dimensions v)"
  shows "copy_as_is outer n v g = (None, set_variables (variables g @ [(n, v)]) g)"
  using assms(3,4)
  by (simp add: copy_as_is_def createVariable_eq [OF assms(1)]
        var_setncatts_last [OF assms(1,2)] setitem_last [OF assms(1)] datatype_of_def no_data_def)

lemma copy_as_is_fails:
  assumes "n \<notin> fst ` set (variables g)" and "distinct (map fst (var_atts v))"
    and "fst (copy_as_is outer n v g) = None"
  shows "set (var_dimensions v) \<subseteq> set (map fst (dimensions g) @ outer) \<and>
         length (shape (var_data v)) = length (var_dimensions v)"
proof (rule ccontr)
  assume "\<not> ?thesis"
  then consider "\<not> set (var_dimensions v) \<subseteq> set (map fst (dimensions g) @ outer)"
    | "set (var_dimensions v) \<subseteq> set (map fst (dimensions g) @ outer)"
      "length (shape (var_data v)) \<noteq> length (var_dimensions v)"
    by blast
  then have "fst (copy_as_is outer n v g) \<noteq> None"
  proof cases
    case 1
    then show ?thesis by (simp add: copy_as_is_def createVariable_eq [OF assms(1)])
  next
    case 2
    then show ?thesis
      by (simp add: copy_as_is_def createVariable_eq [OF assms(1)]
            var_setncatts_last [OF assms(1,2)] setitem_last [OF assms(1)])
  qed
  then show False using assms(3) by contradiction
qed


lemma shape_mean_along [simp]:
  "shape (mean_along a k) = take k (shape a) @ drop (Suc k) (shape a)"
  by (simp add: mean_along_def Let_def)

lemma rank_mean_along:
  "k < length (shape a) \<Longrightarrow> length (shape (mean_along a k)) = length (shape a) - 1"
  by simp

lemma mean_branch_eq:
  assumes "n \<notin> fst ` set vs" and "distinct (map fst (var_atts v))"
  shows "mean_branch n v (set_variables (vs @
            [(n, \<lparr>var_dimensions = dims, var_atts = [], var_data = no_data (datatype_of v)\<rparr>)]) g) =
     (if length (shape (var_data v)) \<le> index_of ''time'' (var_dimensions v)
      then (Some (AxisError (index_of ''time'' (var_dimensions v))),
            set_variables (vs @ [(n, \<lparr>var_dimensions = dims, var_atts = var_atts v,
                                      var_data = no_data (datatype_of v)\<rparr>)]) g)
      else if length (shape (var_data v)) - 1 \<noteq> length dims
      then (Some (ShapeMismatch n),
            set_variables (vs @ [(n, \<lparr>var_dimensions = dims, var_atts = var_atts v,
                                      var_data = no_data (datatype_of v)\<rparr>)]) g)
      else (None,
            set_variables (vs @ [(n, \<lparr>var_dimensions = dims, var_atts = var_atts v,
               var_data = astype (datatype_of v)
                 (mean_along (var_data v) (index_of ''time'' (var_dimensions v)))\<rparr>)]) g))"
  by (simp add: mean_branch_def var_setncatts_last [OF assms] setitem_last [OF assms(1)]
        mean_def datatype_of_def no_data_def)

lemma copy_var_reduced_eq:
  assumes "n \<notin> fst ` set (variables g)" and "distinct (map fst (var_atts v))"
    and "n \<noteq> ''time''" "n \<noteq> ''lat''" "n \<noteq> ''lon''" "''time'' \<in> set (var_dimensions v)"
  shows "var_accepted (map fst (dimensions g) @ outer) n v \<Longrightarrow>
           copy_var outer n v g =
             (None, set_variables (variables g @ [(n, averaged_variable v)]) g)"
    and "fst (copy_var outer n v g) = None \<Longrightarrow> var_accepted (map fst (dimensions g) @ outer) n v"
proof -
  let ?dims = "filter (\<lambda>d. d \<noteq> ''time'') (var_dimensions v)"
  have eq: "copy_var outer n v g =
      (if set ?dims \<subseteq> set (map fst (dimensions g) @ outer)
       then mean_branch n v (set_variables (variables g @
              [(n, \<lparr>var_dimensions = ?dims, var_atts = [], var_data = no_data (datatype_of v)\<rparr>)]) g)
       else (Some (DimNotFound (the (find (\<lambda>d. d \<notin> set (map fst (dimensions g) @ outer)) ?dims))), g))"
    unfolding copy_var_reduced [OF assms(3-6)] createVariable_eq [OF assms(1)] by simp
  show "copy_var outer n v g = (None, set_variables (variables g @ [(n, averaged_variable v)]) g)"
    if "var_accepted (map fst (dimensions g) @ outer) n v"
    using that assms(3-6) unfolding eq mean_branch_eq [OF assms(1,2)]
    by (simp add: var_accepted_def averaged_variable_def)
  show "var_accepted (map fst (dimensions g) @ outer) n v" if "fst (copy_var outer n v g) = None"
    using that assms(3-6) unfolding eq mean_branch_eq [OF assms(1,2)]
    by (simp add: var_accepted_def split: if_splits)
qed

lemma copy_var_ok:
  assumes "n \<notin> fst ` set (variables g)" and "distinct (map fst (var_atts v))"
    and "var_accepted (map fst (dimensions g) @ outer) n v"
  shows "copy_var outer n v g =
     (None, if n = ''time'' then g
            else set_variables (variables g @ [(n, destination_variable n v)]) g)"
proof -
  consider (skip) "n = ''time''"
    | (as_is) "n \<noteq> ''time''" "n = ''lat'' \<or> n = ''lon'' \<or> ''time'' \<notin> set (var_dimensions v)"
    | (avg) "n \<noteq> ''time''" "n \<noteq> ''lat''" "n \<noteq> ''lon''" "''time'' \<in> set (var_dimensions v)"
    by blast
  then show ?thesis
  proof cases
    case skip
    then show ?thesis by simp
  next
    case as_is
    have "set (var_dimensions v) \<subseteq> set (map fst (dimensions g) @ outer)"
      and "length (shape (var_data v)) = length (var_dimensions v)"
      using assms(3) as_is unfolding var_accepted_def by auto
    from copy_as_is_ok [OF assms(1,2) this] show ?thesis
      using as_is by (simp add: copy_var_verbatim destination_variable_def)
  next
    case avg
    from copy_var_reduced_eq(1) [OF assms(1,2) avg assms(3)] show ?thesis
      using avg by (simp add: destination_variable_def)
  qed
qed

lemma copy_var_success:
  assumes "n \<notin> fst ` set (variables g)" and "distinct (map fst (var_atts v))"
    and "fst (copy_var outer n v g) = None"
  shows "var_accepted (map fst (dimensions g) @ outer) n v"
proof -
  consider (skip) "n = ''time''"
    | (as_is) "n \<noteq> ''time''" "n = ''lat'' \<or> n = ''lon'' \<or> ''time'' \<notin> set (var_dimensions v)"
    | (avg) "n \<noteq> ''time''" "n \<noteq> ''lat''" "n \<noteq> ''lon''" "''time'' \<in> set (var_dimensions v)"
    by blast
  then show ?thesis
  proof cases
    case skip
    then show ?thesis by (simp add: var_accepted_def)
  next
    case as_is
    have "fst (copy_as_is outer n v g) = None"
      using assms(3) as_is by (simp add: copy_var_verbatim)
    from copy_as_is_fails [OF assms(1,2) this] show ?thesis
      using as_is unfolding var_accepted_def by auto
  next
    case avg
    from copy_var_reduced_eq(2) [OF assms(1,2) avg assms(3)] show ?thesis .
  qed
qed


lemma copy_vars_loop_ok:
  assumes "distinct (map fst vs)" and "fst ` set vs \<inter> fst ` set (variables g) = {}"
    and "\<And>p. p \<in> set vs \<Longrightarrow> distinct (map fst (var_atts (snd p)))"
    and "\<And>p. p \<in> set vs \<Longrightarrow> var_accepted (map fst (dimensions g) @ outer) (fst p) (snd p)"
  shows "copy_vars_loop outer vs g =
     (None, set_variables (variables g @
              map (\<lambda>p. (fst p, destination_variable (fst p) (snd p)))
                (filter (\<lambda>p. fst p \<noteq> ''time'') vs)) g)"
  using assms
proof (induction vs arbitrary: g)
  case Nil
  then show ?case by simp
next
  case (Cons p vs)
  obtain n v where p: "p = (n, v)" by (cases p)
  let ?g = "if n = ''time'' then g
            else set_variables (variables g @ [(n, destination_variable n v)]) g"
  have fresh: "n \<notin> fst ` set (variables g)" using Cons.prems(2) p by auto
  have step: "copy_var outer n v g = (None, ?g)"
    using copy_var_ok [OF fresh, of v outer] Cons.prems(3) [of p] Cons.prems(4) [of p] p by simp
  have dims: "dimensions ?g = dimensions g" by simp
  have "copy_vars_loop outer vs ?g =
     (None, set_variables (variables ?g @
              map (\<lambda>p. (fst p, destination_variable (fst p) (snd p)))
                (filter (\<lambda>p. fst p \<noteq> ''time'') vs)) ?g)"
  proof (rule Cons.IH)
    show "distinct (map fst vs)" using Cons.prems(1) by simp
    show "fst ` set vs \<inter> fst ` set (variables ?g) = {}"
      using Cons.prems(1,2) p by auto
    show "\<And>q. q \<in> set vs \<Longrightarrow> distinct (map fst (var_atts (snd q)))"
      using Cons.prems(3) by simp
    show "\<And>q. q \<in> set vs \<Longrightarrow> var_accepted (map fst (dimensions ?g) @ outer) (fst q) (snd q)"
      unfolding dims using Cons.prems(4) by simp
  qed
  then show ?case using step p by simp
qed

lemma copy_vars_loop_success:
  assumes "distinct (map fst vs)" and "fst ` set vs \<inter> fst ` set (variables g) = {}"
    and "\<And>p. p \<in> set vs \<Longrightarrow> distinct (map fst (var_atts (snd p)))"
    and "fst (copy_vars_loop outer vs g) = None"
  shows "\<forall>p \<in> set vs. var_accepted (map fst (dimensions g) @ outer) (fst p) (snd p)"
  using assms
proof (induction vs arbitrary: g)
  case Nil
  then show ?case by simp
next
  case (Cons p vs)
  obtain n v where p: "p = (n, v)" by (cases p)
  let ?g = "snd (copy_var outer n v g)"
  have fresh: "n \<notin> fst ` set (variables g)" using Cons.prems(2) p by auto
  have ok: "fst (copy_var outer n v g) = None" and rest: "fst (copy_vars_loop outer vs ?g) = None"
    using Cons.prems(4) p by (simp_all add: fst_and_then)
  have acc: "var_accepted (map fst (dimensions g) @ outer) n v"
    using copy_var_success [OF fresh _ ok] Cons.prems(3) [of p] p by simp
  have dims: "dimensions ?g = dimensions g" using copy_var_frame [of outer n v g] by simp
  have "\<forall>q \<in> set vs. var_accepted (map fst (dimensions ?g) @ outer) (fst q) (snd q)"
  proof (rule Cons.IH)
    show "distinct (map fst vs)" using Cons.prems(1) by simp
    have "fst ` set (variables ?g) \<subseteq> insert n (fst ` set (variables g))"
      using copy_var_frame [of outer n v g] by simp
    moreover have "n \<notin> fst ` set vs" using Cons.prems(1) p by simp
    moreover have "fst ` set vs \<inter> fst ` set (variables g) = {}" using Cons.prems(2) by auto
    ultimately show "fst ` set vs \<inter> fst ` set (variables ?g) = {}" by blast
    show "\<And>q. q \<in> set vs \<Longrightarrow> distinct (map fst (var_atts (snd q)))"
      using Cons.prems(3) by simp
    show "fst (copy_vars_loop outer vs ?g) = None" by (rule rest)
  qed
  then show ?case using acc p unfolding dims by simp
qed

lemma copy_groups_step:
  "copy_groups outer ((n, s) # rest) g =
     (let g' = createGroup n g;
          r = recursive_copy (map fst (dimensions g') @ outer) s (child n g')
      in if fst r = None then copy_groups outer rest (put_child n (snd r) g')
         else (fst r, put_child n (snd r) g'))"
  by (auto simp: Let_def split: prod.splits option.splits)

lemma createGroup_fresh:
  assumes "n \<notin> fst ` set (groups g)"
  shows "createGroup n g = set_groups (groups g @ [(n, empty_group)]) g"
proof -
  have "map_of (groups g) n = None" using assms by (rule map_of_eq_None_iff [THEN iffD2])
  then show ?thesis by (simp add: createGroup_def)
qed

lemma child_last:
  "n \<notin> fst ` set c \<Longrightarrow> child n (set_groups (c @ [(n, x)]) g) = x"
  using map_of_last [of n c x] by (simp add: child_def del: map_of_append)

lemma put_child_last:
  "n \<notin> fst ` set c \<Longrightarrow> put_child n x (set_groups (c @ [(n, y)]) g) = set_groups (c @ [(n, x)]) g"
  by (simp add: put_child_def update_last_entry)

lemma copy_groups_fresh_step:
  assumes "n \<notin> fst ` set (groups g)"
  shows "copy_groups outer ((n, s) # rest) g =
     (let r = recursive_copy (map fst (dimensions g) @ outer) s empty_group
      in if fst r = None then copy_groups outer rest (set_groups (groups g @ [(n, snd r)]) g)
         else (fst r, set_groups (groups g @ [(n, snd r)]) g))"
  unfolding copy_groups_step createGroup_fresh [OF assms]
  by (simp add: Let_def child_last [OF assms] put_child_last [OF assms])

lemma copy_groups_ok:
  assumes "distinct (map fst c)" and "fst ` set c \<inter> fst ` set (groups g) = {}"
    and "\<And>p. p \<in> set c \<Longrightarrow>
           recursive_copy (map fst (dimensions g) @ outer) (snd p) empty_group = (None, f (snd p))"
  shows "copy_groups outer c g =
     (None, set_groups (groups g @ map (\<lambda>p. (fst p, f (snd p))) c) g)"
  using assms
proof (induction c arbitrary: g)
  case Nil
  then show ?case by simp
next
  case (Cons p c)
  obtain n s where p: "p = (n, s)" by (cases p)
  let ?g = "set_groups (groups g @ [(n, f s)]) g"
  have fresh: "n \<notin> fst ` set (groups g)" using Cons.prems(2) p by auto
  have r: "recursive_copy (map fst (dimensions g) @ outer) s empty_group = (None, f s)"
    using Cons.prems(3) [of p] p by simp
  have "copy_groups outer c ?g = (None, set_groups (groups ?g @ map (\<lambda>p. (fst p, f (snd p))) c) ?g)"
  proof (rule Cons.IH)
    show "distinct (map fst c)" using Cons.prems(1) by simp
    show "fst ` set c \<inter> fst ` set (groups ?g) = {}" using Cons.prems(1,2) p by auto
    show "\<And>q. q \<in> set c \<Longrightarrow>
           recursive_copy (map fst (dimensions ?g) @ outer) (snd q) empty_group = (None, f (snd q))"
      using Cons.prems(3) by simp
  qed
  then show ?case unfolding p copy_groups_fresh_step [OF fresh] using r by simp
qed

lemma copy_groups_success:
  assumes "distinct (map fst c)" and "fst ` set c \<inter> fst ` set (groups g) = {}"
    and "fst (copy_groups outer c g) = None"
  shows "\<forall>p \<in> set c. fst (recursive_copy (map fst (dimensions g) @ outer) (snd p) empty_group) = None"
  using assms
proof (induction c arbitrary: g)
  case Nil
  then show ?case by simp
next
  case (Cons p c)
  obtain n s where p: "p = (n, s)" by (cases p)
  let ?r = "recursive_copy (map fst (dimensions g) @ outer) s empty_group"
  let ?g = "set_groups (groups g @ [(n, snd ?r)]) g"
  have fresh: "n \<notin> fst ` set (groups g)" using Cons.prems(2) p by auto
  have both: "fst ?r = None \<and> fst (copy_groups outer c ?g) = None"
    using Cons.prems(3) unfolding p copy_groups_fresh_step [OF fresh]
    by (simp add: Let_def split: if_splits)
  have "\<forall>q \<in> set c. fst (recursive_copy (map fst (dimensions ?g) @ outer) (snd q) empty_group) = None"
  proof (rule Cons.IH)
    show "distinct (map fst c)" using Cons.prems(1) by simp
    show "fst ` set c \<inter> fst ` set (groups ?g) = {}" using Cons.prems(1,2) p by auto
    show "fst (copy_groups outer c ?g) = None" using both by simp
  qed
  then show ?case using both p by simp
qed


lemma recursive_copy_empty:
  assumes "distinct (map fst a)" and "distinct (map fst d)"
  shows "recursive_copy outer (Group a d v c) empty_group =
     (let r = copy_vars_loop outer v (Group a (filter (\<lambda>p. fst p \<noteq> ''time'') d) [] [])
      in if fst r = None then copy_groups outer c (snd r) else r)"
proof -
  have "copy_dims (Group a d v c) (setncatts a empty_group) =
          (None, Group a (filter (\<lambda>p. fst p \<noteq> ''time'') d) [] [])"
    unfolding setncatts_empty [OF assms(1)] copy_dims_def
    using copy_dims_loop_fresh [OF assms(2), of "Group a [] [] []"]
    by (simp add: set_dimensions_def)
  then show ?thesis
    by (simp add: copy_vars_def Let_def split: prod.splits option.splits)
qed

lemma recursive_copy_accepted:
  "unique_names src \<Longrightarrow> accepted outer src \<Longrightarrow>
   recursive_copy outer src empty_group = (None, destination_of src)"
proof (induction src arbitrary: outer rule: group_induct)
  case (Group a d v c)
  let ?d = "filter (\<lambda>p. fst p \<noteq> ''time'') d"
  let ?sc = "map fst ?d @ outer"
  let ?g2 = "Group a ?d [] []"
  let ?v = "map (\<lambda>p. (fst p, destination_variable (fst p) (snd p))) (filter (\<lambda>p. fst p \<noteq> ''time'') v)"
  let ?g3 = "Group a ?d ?v []"
  have u: "distinct (map fst a)" "distinct (map fst d)" "distinct (map fst v)" "distinct (map fst c)"
    and ua: "\<And>p. p \<in> set v \<Longrightarrow> distinct (map fst (var_atts (snd p)))"
    and uc: "\<And>p. p \<in> set c \<Longrightarrow> unique_names (snd p)"
    using Group.prems(1) by simp_all
  have av: "\<And>p. p \<in> set v \<Longrightarrow> var_accepted ?sc (fst p) (snd p)"
    and ac: "\<And>p. p \<in> set c \<Longrightarrow> accepted ?sc (snd p)"
    using Group.prems(2) by simp_all
  have vars: "copy_vars_loop outer v ?g2 = (None, ?g3)"
    using copy_vars_loop_ok [OF u(3), of ?g2 outer] ua av
    by (simp add: set_variables_def)
  have "copy_groups outer c ?g3 =
      (None, set_groups (groups ?g3 @ map (\<lambda>p. (fst p, destination_of (snd p))) c) ?g3)"
  proof (rule copy_groups_ok [OF u(4)])
    show "fst ` set c \<inter> fst ` set (groups ?g3) = {}" by simp
    show "\<And>p. p \<in> set c \<Longrightarrow>
        recursive_copy (map fst (dimensions ?g3) @ outer) (snd p) empty_group =
          (None, destination_of (snd p))"
      using Group.IH uc ac by simp
  qed
  then show ?case
    unfolding recursive_copy_empty [OF u(1,2)] vars
    by (simp add: set_groups_def)
qed

lemma recursive_copy_success:
  "unique_names src \<Longrightarrow> fst (recursive_copy outer src empty_group) = None \<Longrightarrow>
   accepted outer src"
proof (induction src arbitrary: outer rule: group_induct)
  case (Group a d v c)
  let ?d = "filter (\<lambda>p. fst p \<noteq> ''time'') d"
  let ?sc = "map fst ?d @ outer"
  let ?g2 = "Group a ?d [] []"
  let ?r = "copy_vars_loop outer v ?g2"
  have u: "distinct (map fst a)" "distinct (map fst d)" "distinct (map fst v)" "distinct (map fst c)"
    and ua: "\<And>p. p \<in> set v \<Longrightarrow> distinct (map fst (var_atts (snd p)))"
    and uc: "\<And>p. p \<in> set c \<Longrightarrow> unique_names (snd p)"
    using Group.prems(1) by simp_all
  have both: "fst ?r = None \<and> fst (copy_groups outer c (snd ?r)) = None"
    using Group.prems(2) unfolding recursive_copy_empty [OF u(1,2)]
    by (simp add: Let_def split: if_splits)
  have frame: "dimensions (snd ?r) = ?d" "groups (snd ?r) = []"
    using copy_vars_loop_frame [of outer v ?g2] by simp_all
  have av: "\<forall>p \<in> set v. var_accepted ?sc (fst p) (snd p)"
    using copy_vars_loop_success [OF u(3), of ?g2 outer] ua both by simp
  have "\<forall>p \<in> set c. fst (recursive_copy (map fst (dimensions (snd ?r)) @ outer) (snd p) empty_group) = None"
    using both by (intro copy_groups_success [OF u(4)]) (simp_all add: frame)
  then have ac: "\<forall>p \<in> set c. accepted ?sc (snd p)"
    using Group.IH uc unfolding frame by blast
  show ?case using av ac by simp
qed

lemma average_completed:
  assumes "unique_names src" and "average src = (None, dst)"
  shows "accepted [] src" and "dst = destination_of src"
proof -
  have "fst (recursive_copy [] src empty_group) = None"
    using assms(2) by (simp add: average_def)
  with assms(1) show a: "accepted [] src" by (rule recursive_copy_success)
  show "dst = destination_of src"
    using recursive_copy_accepted [OF assms(1) a] assms(2) by (simp add: average_def)
qed

lemma demo_unique: "unique_names demo"
  by code_simp

section \<open>Group topology\<close>

lemma topology_of_destination: "topology_of (destination_of g) = topology_of g"
  by (induction g rule: group_induct) simp

text \<open>
  Claim C2. The destination tree of a completed run has the group names and the nesting
  of the source tree: every child group of the source has its counterpart, of the same
  name and in the same position, under the counterpart of its parent.
\<close>

theorem topology_preserved:
  "unique_names src \<Longrightarrow> average src = (None, dst) \<Longrightarrow> topology_of dst = topology_of src"
  using average_completed(2) [of src dst] by (simp add: topology_of_destination)

theorem topology_preserved_witness:
  "unique_names demo \<and> average demo = (None, demo_mean) \<and>
   topology_of demo_mean = topology_of demo"
  using topology_preserved [OF demo_unique average_demo] demo_unique average_demo by simp

section \<open>Variables without the reduction dimension\<close>

lemma map_of_map_snd:
  "map_of (map (\<lambda>p. (fst p, f (snd p))) al) k = map_option f (map_of al k)"
  by (induction al) auto

lemma subgroup_destination:
  "subgroup path (destination_of g) = map_option destination_of (subgroup path g)"
proof (induction path arbitrary: g)
  case Nil
  then show ?case by simp
next
  case (Cons n path)
  obtain a d v c where g: "g = Group a d v c" by (cases g)
  show ?case
  proof (cases "map_of c n")
    case None
    then show ?thesis using g by (simp add: map_of_map_snd)
  next
    case (Some s)
    then show ?thesis using g Cons.IH [of s] by (simp add: map_of_map_snd)
  qed
qed

lemma map_of_destination_variables:
  "map_of (map (\<lambda>p. (fst p, f (fst p) (snd p))) (filter (\<lambda>p. fst p \<noteq> t) v)) n =
     (if n = t then None else map_option (f n) (map_of v n))"
  by (induction v) auto

lemma variables_destination:
  "map_of (variables (destination_of g)) n =
     (if n = ''time'' then None else map_option (destination_variable n) (map_of (variables g) n))"
  by (cases g) (simp add: map_of_destination_variables)

lemma destination_lookup:
  assumes "unique_names src" and "average src = (None, dst)"
    and "subgroup path src = Some sg" and "map_of (variables sg) n = Some v" and "n \<noteq> ''time''"
  shows "subgroup path dst = Some (destination_of sg)"
    and "map_of (variables (destination_of sg)) n = Some (destination_variable n v)"
  using average_completed(2) [OF assms(1,2)] assms(3-5)
  by (simp_all add: subgroup_destination variables_destination)




section \<open>Variables over the reduction dimension\<close>

lemma ravel_less: "valid_index s idx \<Longrightarrow> ravel s idx < prod_list s"
  unfolding valid_index_def
proof (induction idx s rule: list_all2_induct)
  case Nil
  then show ?case by simp
next
  case (Cons i idx n s)
  have "i * prod_list s + ravel s idx < i * prod_list s + prod_list s"
    using Cons.IH by simp
  also have "\<dots> = Suc i * prod_list s" by simp
  also have "\<dots> \<le> n * prod_list s" using Cons.hyps(1) by (intro mult_le_mono1) simp
  finally show ?case by simp
qed

lemma ravel_append:
  "valid_index s1 i1 \<Longrightarrow>
   ravel (s1 @ s2) (i1 @ i2) = ravel s1 i1 * prod_list s2 + ravel s2 i2"
  unfolding valid_index_def
proof (induction i1 s1 rule: list_all2_induct)
  case Nil
  then show ?case by simp
next
  case (Cons i idx n s)
  then show ?case by (simp add: algebra_simps)
qed

lemma length_grid:
  "length (concat (map (\<lambda>p. map (f p) [0..<n]) [0..<m])) = m * n"
  by (induction m) simp_all

lemma nth_grid:
  "p < m \<Longrightarrow> q < n \<Longrightarrow> concat (map (\<lambda>p. map (f p) [0..<n]) [0..<m]) ! (p * n + q) = f p q"
proof (induction m)
  case 0
  then show ?case by simp
next
  case (Suc m)
  show ?case
  proof (cases "p < m")
    case True
    have "p * n + q < p * n + n" using Suc.prems(2) by simp
    also have "\<dots> = Suc p * n" by simp
    also have "\<dots> \<le> m * n" using True by (intro mult_le_mono1) simp
    finally have "p * n + q < m * n" .
    then show ?thesis using Suc.IH [OF True Suc.prems(2)]
      by (simp add: nth_append length_grid)
  next
    case False
    then have "p = m" using Suc.prems(1) by simp
    then show ?thesis using Suc.prems(2) by (simp add: nth_append length_grid)
  qed
qed

lemma valid_index_split:
  assumes "k < length s" and "valid_index (take k s @ drop (Suc k) s) idx"
  shows "valid_index (take k s) (take k idx)" and "valid_index (drop (Suc k) s) (drop k idx)"
proof -
  from assms(2) obtain us vs where uv: "idx = us @ vs" "length us = length (take k s)"
      "list_all2 (\<lambda>i n. i < n) us (take k s)" "list_all2 (\<lambda>i n. i < n) vs (drop (Suc k) s)"
    unfolding valid_index_def list_all2_append2 by blast
  have "length us = k" using uv(2) assms(1) by simp
  then have "take k idx = us" "drop k idx = vs" using uv(1) by simp_all
  then show "valid_index (take k s) (take k idx)" "valid_index (drop (Suc k) s) (drop k idx)"
    using uv(3,4) by (simp_all add: valid_index_def)
qed

lemma item_mean_along:
  assumes "k < length (shape a)"
    and "valid_index (take k (shape a) @ drop (Suc k) (shape a)) idx"
  shows "ravel (shape (mean_along a k)) idx < length (elems (mean_along a k))"
    and "item (mean_along a k) idx =
           arithmetic_mean (map (\<lambda>j. item a (take k idx @ j # drop k idx)) [0..<shape a ! k])"
proof -
  let ?s = "shape a"
  let ?s1 = "take k ?s" and ?s2 = "drop (Suc k) ?s" and ?t = "?s ! k"
  let ?i1 = "take k idx" and ?i2 = "drop k idx"
  let ?p = "ravel ?s1 ?i1" and ?q = "ravel ?s2 ?i2"
  have v1: "valid_index ?s1 ?i1" and v2: "valid_index ?s2 ?i2"
    using valid_index_split [OF assms] by simp_all
  have p: "?p < prod_list ?s1" and q: "?q < prod_list ?s2"
    using v1 v2 by (simp_all add: ravel_less)
  have s: "?s = ?s1 @ ?t # ?s2" using assms(1) by (rule id_take_nth_drop)
  have off: "ravel (?s1 @ ?s2) idx = ?p * prod_list ?s2 + ?q"
    using ravel_append [OF v1, of ?s2 ?i2] by simp
  have src: "ravel ?s (?i1 @ j # ?i2) = (?p * ?t + j) * prod_list ?s2 + ?q" for j
  proof -
    have "ravel (?s1 @ ?t # ?s2) (?i1 @ j # ?i2) =
            ?p * prod_list (?t # ?s2) + ravel (?t # ?s2) (j # ?i2)"
      using v1 by (rule ravel_append)
    then show ?thesis using s by (simp add: algebra_simps)
  qed
  show "ravel (shape (mean_along a k)) idx < length (elems (mean_along a k))"
    using ravel_less [OF assms(2)] by (simp add: mean_along_def Let_def length_grid)
  have "item (mean_along a k) idx =
      arithmetic_mean (map (\<lambda>j. elems a ! ((?p * ?t + j) * prod_list ?s2 + ?q)) [0..<?t])"
    unfolding item_def shape_mean_along off
    using nth_grid [OF p q] by (simp add: mean_along_def Let_def)
  then show "item (mean_along a k) idx =
           arithmetic_mean (map (\<lambda>j. item a (take k idx @ j # drop k idx)) [0..<shape a ! k])"
    by (simp add: item_def src)
qed

lemma item_astype_mean:
  assumes "k < length (shape a)"
    and "valid_index (take k (shape a) @ drop (Suc k) (shape a)) idx"
  shows "item (astype (dtype a) (mean_along a k)) idx =
           stored_as (dtype a) (item (mean_along a k) idx)"
proof (cases "is_floating (dtype a)")
  case True
  then have "dtype (mean_along a k) = dtype a" by (simp add: mean_along_def Let_def)
  then show ?thesis using True by (simp add: astype_def stored_as_def)
next
  case False
  then have "dtype (mean_along a k) = NC_DOUBLE" by (simp add: mean_along_def Let_def)
  moreover have "dtype a \<noteq> NC_DOUBLE" using False by auto
  ultimately have "astype (dtype a) (mean_along a k) =
      (mean_along a k)\<lparr>dtype := dtype a, elems := map truncate (elems (mean_along a k))\<rparr>"
    using False by (simp add: astype_def)
  then show ?thesis
    using item_mean_along(1) [OF assms] False by (simp add: item_def stored_as_def)
qed

lemma accepted_at:
  "accepted outer g \<Longrightarrow> ''time'' \<notin> set outer \<Longrightarrow> subgroup path g = Some sg \<Longrightarrow>
   map_of (variables sg) n = Some v \<Longrightarrow> \<exists>sc. ''time'' \<notin> set sc \<and> var_accepted sc n v"
proof (induction path arbitrary: g outer)
  case Nil
  obtain a d x c where g: "g = Group a d x c" by (cases g)
  let ?sc = "map fst (filter (\<lambda>p. fst p \<noteq> ''time'') d) @ outer"
  have "(n, v) \<in> set x" using Nil.prems(3,4) g by (auto dest: map_of_SomeD)
  then have "var_accepted ?sc n v" using Nil.prems(1) g by fastforce
  moreover have "''time'' \<notin> set ?sc" using Nil.prems(2) by auto
  ultimately show ?case by blast
next
  case (Cons m path)
  obtain a d x c where g: "g = Group a d x c" by (cases g)
  let ?sc = "map fst (filter (\<lambda>p. fst p \<noteq> ''time'') d) @ outer"
  from Cons.prems(3) obtain s where s: "map_of c m = Some s" "subgroup path s = Some sg"
    using g by (auto split: option.splits)
  have "(m, s) \<in> set c" using s(1) by (rule map_of_SomeD)
  then have "accepted ?sc s" using Cons.prems(1) g by fastforce
  moreover have "''time'' \<notin> set ?sc" using Cons.prems(2) by auto
  ultimately show ?case using Cons.IH s(2) Cons.prems(4) by blast
qed

lemma length_elems_astype [simp]: "length (elems (astype t a)) = length (elems a)"
  by (simp add: astype_def)

lemma length_elems_mean_along:
  "length (elems (mean_along a k)) = prod_list (shape (mean_along a k))"
  by (simp add: mean_along_def Let_def length_grid)




section \<open>The coordinate variables\<close>

text \<open>
  Claim C5 fails on the code. \<open>copy_vars\<close> hands the dimension names of \<open>lat\<close> and
  \<open>lon\<close> to \<open>createVariable\<close> as they are, and \<open>copy_dims\<close> has not created
  \<open>time\<close> in the destination: when one of the two variables is over \<open>time\<close>, the
  library does not find the dimension and the run aborts.
\<close>

theorem coordinate_over_time_aborts:
  assumes "unique_names src" and "subgroup path src = Some sg"
    and "map_of (variables sg) n = Some v" and "n \<in> set [''lat'', ''lon'']"
    and "''time'' \<in> set (var_dimensions v)"
  shows "fst (average src) \<noteq> None"
proof
  assume "fst (average src) = None"
  then have "accepted [] src"
    using recursive_copy_success [OF assms(1), of "[]"] by (simp add: average_def)
  then obtain sc where "''time'' \<notin> set sc" and "var_accepted sc n v"
    using accepted_at [of "[]" src path sg n v] assms(2,3) by auto
  then show False using assms(4,5) unfolding var_accepted_def by auto
qed

theorem coordinate_over_time_aborts_witness:
  "unique_names ex_track \<and> subgroup [] ex_track = Some ex_track \<and>
   map_of (variables ex_track) ''lat'' = Some ex_track_lat \<and>
   ''lat'' \<in> set [''lat'', ''lon''] \<and> ''time'' \<in> set (var_dimensions ex_track_lat) \<and>
   fst (average ex_track) \<noteq> None \<and>
   average ex_track = (Some (DimNotFound ''time''), empty_group)"
proof -
  have 1: "unique_names ex_track" by code_simp
  have 2: "subgroup [] ex_track = Some ex_track" by simp
  have 3: "map_of (variables ex_track) ''lat'' = Some ex_track_lat" by (simp add: ex_track_def)
  have 4: "''lat'' \<in> set [''lat'', ''lon'']" by simp
  have 5: "''time'' \<in> set (var_dimensions ex_track_lat)" by (simp add: ex_track_lat_def)
  have 6: "average ex_track = (Some (DimNotFound ''time''), empty_group)" by code_simp
  show ?thesis using coordinate_over_time_aborts [OF 1 2 3 4 5] 1 2 3 4 5 6 by simp
qed

section \<open>Averaging a tree that has no reduction dimension\<close>

lemma filter_all: "(\<And>x. x \<in> set xs \<Longrightarrow> P x) \<Longrightarrow> filter P xs = xs"
  by (induction xs) auto

lemma map_same: "(\<And>x. x \<in> set xs \<Longrightarrow> f x = x) \<Longrightarrow> map f xs = xs"
  by (induction xs) auto

lemma settled_tree:
  "time_free g \<Longrightarrow> ''time'' \<notin> set outer \<Longrightarrow> dims_resolve outer g \<Longrightarrow> shapes_fit g \<Longrightarrow>
   accepted outer g \<and> destination_of g = g"
proof (induction g arbitrary: outer rule: group_induct)
  case (Group a d v c)
  let ?sc = "map fst d @ outer"
  have td: "''time'' \<notin> fst ` set d" and tv: "''time'' \<notin> fst ` set v"
    and tc: "\<And>p. p \<in> set c \<Longrightarrow> time_free (snd p)"
    using Group.prems(1) by simp_all
  have fd: "filter (\<lambda>p. fst p \<noteq> ''time'') d = d" using td by (intro filter_all) force
  have fv: "filter (\<lambda>p. fst p \<noteq> ''time'') v = v" using tv by (intro filter_all) force
  have sc: "''time'' \<notin> set ?sc" using td Group.prems(2) by simp
  have rv: "\<And>p. p \<in> set v \<Longrightarrow> set (var_dimensions (snd p)) \<subseteq> set ?sc"
    and rc: "\<And>p. p \<in> set c \<Longrightarrow> dims_resolve ?sc (snd p)"
    using Group.prems(3) by simp_all
  have sv: "\<And>p. p \<in> set v \<Longrightarrow> length (shape (var_data (snd p))) = length (var_dimensions (snd p))"
    and scc: "\<And>p. p \<in> set c \<Longrightarrow> shapes_fit (snd p)"
    using Group.prems(4) by simp_all
  have nt: "\<And>p. p \<in> set v \<Longrightarrow> ''time'' \<notin> set (var_dimensions (snd p))"
    using rv sc by blast
  have acc_v: "\<And>p. p \<in> set v \<Longrightarrow> var_accepted ?sc (fst p) (snd p)"
    using rv sv nt by (simp add: var_accepted_def)
  have same_v: "map (\<lambda>p. (fst p, destination_variable (fst p) (snd p))) v = v"
    using nt by (intro map_same) (simp add: destination_variable_def)
  have ih: "\<And>p. p \<in> set c \<Longrightarrow> accepted ?sc (snd p) \<and> destination_of (snd p) = snd p"
    using Group.IH tc sc rc scc by blast
  have same_c: "map (\<lambda>p. (fst p, destination_of (snd p))) c = c"
    using ih by (intro map_same) simp
  show ?case using acc_v ih same_v same_c by (simp add: fd fv)
qed

lemma destination_variable_idem:
  "destination_variable n (destination_variable n v) = destination_variable n v"
  by (simp add: destination_variable_def averaged_variable_def)

lemma destination_of_idem: "destination_of (destination_of g) = destination_of g"
  by (induction g rule: group_induct) (simp add: destination_variable_idem)

lemma distinct_keys_filter:
  "distinct (map fst xs) \<Longrightarrow> distinct (map fst (filter P xs))"
  by (induction xs) auto

lemma unique_names_destination: "unique_names g \<Longrightarrow> unique_names (destination_of g)"
proof (induction g rule: group_induct)
  case (Group a d v c)
  have "map fst (map (\<lambda>p. (fst p, destination_variable (fst p) (snd p)))
           (filter (\<lambda>p. fst p \<noteq> ''time'') v)) = map fst (filter (\<lambda>p. fst p \<noteq> ''time'') v)"
    by simp
  moreover have "map fst (map (\<lambda>p. (fst p, destination_of (snd p))) c) = map fst c"
    by simp
  moreover have "\<And>n x. var_atts (destination_variable n x) = var_atts x"
    by (simp add: destination_variable_def averaged_variable_def)
  ultimately show ?case
    using Group.prems Group.IH by (auto simp: distinct_keys_filter simp del: map_map)
qed

lemma var_accepted_destination:
  assumes "n \<noteq> ''time''" and "var_accepted sc n v"
  shows "var_accepted sc n (destination_variable n v)"
proof (cases "n = ''lat'' \<or> n = ''lon'' \<or> ''time'' \<notin> set (var_dimensions v)")
  case True
  then show ?thesis using assms(2) by (simp add: destination_variable_def)
next
  case False
  then have k: "index_of ''time'' (var_dimensions v) < length (shape (var_data v))"
    and r: "length (shape (var_data v)) - 1 =
              length (filter (\<lambda>d. d \<noteq> ''time'') (var_dimensions v))"
    and s: "set (filter (\<lambda>d. d \<noteq> ''time'') (var_dimensions v)) \<subseteq> set sc"
    using assms unfolding var_accepted_def by simp_all
  have "length (shape (var_data (averaged_variable v))) =
          length (var_dimensions (averaged_variable v))"
    using k r by (simp add: averaged_variable_def)
  moreover have "''time'' \<notin> set (var_dimensions (averaged_variable v))"
    by (simp add: averaged_variable_def)
  moreover have "set (var_dimensions (averaged_variable v)) \<subseteq> set sc"
    using s by (simp add: averaged_variable_def)
  ultimately show ?thesis using False
    by (simp add: destination_variable_def var_accepted_def)
qed

lemma accepted_destination: "accepted outer g \<Longrightarrow> accepted outer (destination_of g)"
proof (induction g arbitrary: outer rule: group_induct)
  case (Group a d v c)
  let ?sc = "map fst (filter (\<lambda>p. fst p \<noteq> ''time'') d) @ outer"
  have av: "\<And>p. p \<in> set v \<Longrightarrow> var_accepted ?sc (fst p) (snd p)"
    and ac: "\<And>p. p \<in> set c \<Longrightarrow> accepted ?sc (snd p)"
    using Group.prems by simp_all
  have "\<And>p. p \<in> set v \<Longrightarrow> fst p \<noteq> ''time'' \<Longrightarrow>
          var_accepted ?sc (fst p) (destination_variable (fst p) (snd p))"
    using av by (intro var_accepted_destination) simp_all
  moreover have "\<And>p. p \<in> set c \<Longrightarrow> accepted ?sc (destination_of (snd p))"
    using Group.IH ac by blast
  ultimately show ?case by auto
qed



section \<open>Dimension names that do not resolve\<close>

lemma accepted_resolves:
  "accepted outer' g \<Longrightarrow> (\<And>x. x \<noteq> ''time'' \<Longrightarrow> x \<in> set outer' \<Longrightarrow> x \<in> set outer) \<Longrightarrow>
   \<not> unresolved_kept outer g"
proof (induction g arbitrary: outer outer' rule: group_induct)
  case (Group a d v c)
  let ?sc' = "map fst (filter (\<lambda>p. fst p \<noteq> ''time'') d) @ outer'"
  let ?sc = "map fst d @ outer"
  have av: "\<And>p. p \<in> set v \<Longrightarrow> var_accepted ?sc' (fst p) (snd p)"
    and ac: "\<And>p. p \<in> set c \<Longrightarrow> accepted ?sc' (snd p)"
    using Group.prems(1) by simp_all
  have sub: "\<And>x. x \<noteq> ''time'' \<Longrightarrow> x \<in> set ?sc' \<Longrightarrow> x \<in> set ?sc"
    using Group.prems(2) by auto
  have vars: "x \<in> set ?sc"
    if "p \<in> set v" "fst p \<noteq> ''time''" "x \<in> set (var_dimensions (snd p))" "x \<noteq> ''time''" for p x
  proof -
    have "x \<in> set ?sc'"
      using av [OF that(1)] that(2-4) unfolding var_accepted_def
      by (auto split: if_splits)
    then show ?thesis using sub that(4) by blast
  qed
  have kids: "\<And>p. p \<in> set c \<Longrightarrow> \<not> unresolved_kept ?sc (snd p)"
    using Group.IH ac sub by blast
  show ?case using vars kids by auto
qed

text \<open>
  Claim C6, as amended. If a variable that is not named \<open>time\<close> has a dimension name
  other than \<open>time\<close> that neither its group nor an ancestor declares, the run
  aborts with an error.
\<close>

theorem unresolved_dimension_aborts:
  assumes "unique_names src" and "unresolved_kept [] src"
  shows "fst (average src) \<noteq> None"
proof
  assume "fst (average src) = None"
  then have "accepted [] src"
    using recursive_copy_success [OF assms(1), of "[]"] by (simp add: average_def)
  then have "\<not> unresolved_kept [] src" by (rule accepted_resolves) simp
  then show False using assms(2) by contradiction
qed

theorem unresolved_dimension_aborts_witness:
  "unique_names ex_depth_missing \<and> unresolved_kept [] ex_depth_missing \<and>
   fst (average ex_depth_missing) \<noteq> None"
proof -
  have 1: "unique_names ex_depth_missing" by code_simp
  have 2: "unresolved_kept [] ex_depth_missing" by code_simp
  show ?thesis using unresolved_dimension_aborts [OF 1 2] 1 2 by simp
qed

text \<open>
  Claim C6 as stated fails in three ways. The run completes on a tree whose variable
  \<open>rain\<close> is over a \<open>time\<close> that no group declares, since the name is removed
  before \<open>createVariable\<close> sees it; it completes on a tree whose variable \<open>time\<close> is
  over an undeclared \<open>depth\<close>, since that variable is skipped; and where it aborts,
  on the undeclared \<open>depth\<close> of \<open>sst\<close>, the destination keeps the attribute, the
  dimension and the variable written before.
\<close>

theorem dangling_reference_counterexample:
  "\<not> dims_resolve [] ex_no_time_declared \<and> fst (average ex_no_time_declared) = None \<and>
   \<not> dims_resolve [] ex_time_over_depth \<and> fst (average ex_time_over_depth) = None \<and>
   \<not> dims_resolve [] ex_depth_missing \<and>
   average ex_depth_missing =
     (Some (DimNotFound ''depth''),
      Group [(''title'', Text ''sea'')] [(''lat'', Fixed 2)] [(''lat'', demo_lat)] [])"
  by code_simp

section \<open>The files of a run\<close>

text \<open>
  Claim C9. A run, completed or aborted, leaves the source file as it was, and every
  other file but the destination.
\<close>

theorem source_file_unchanged:
  "src_name \<noteq> dst_name \<Longrightarrow>
   snd (notebook_run src_name dst_name fs) src_name = fs src_name \<and>
   (\<forall>f. f \<noteq> dst_name \<longrightarrow> snd (notebook_run src_name dst_name fs) f = fs f)"
  by (simp add: notebook_run_def split: prod.splits)

theorem source_file_unchanged_witness:
  "''precipitation.nc4'' \<noteq> ''precipitation_mean.nc4'' \<and>
   snd (notebook_run ''precipitation.nc4'' ''precipitation_mean.nc4'' ex_files) ''precipitation.nc4'' = demo"
  using source_file_unchanged [of "''precipitation.nc4''" "''precipitation_mean.nc4''" ex_files]
  by (simp add: ex_files_def)

text \<open>
  Claim C10. Two runs whose source files are equal, entry for entry and in the same
  order, end alike and leave equal destination files, whatever else the files hold and
  whatever the destination file held before.
\<close>

theorem run_deterministic:
  "fs1 src_name = fs2 src_name \<Longrightarrow>
   fst (notebook_run src_name dst_name fs1) = fst (notebook_run src_name dst_name fs2) \<and>
   snd (notebook_run src_name dst_name fs1) dst_name =
     snd (notebook_run src_name dst_name fs2) dst_name"
  by (simp add: notebook_run_def split: prod.splits)

theorem run_deterministic_witness:
  "ex_files ''precipitation.nc4'' = ex_files_other ''precipitation.nc4'' \<and>
   fst (notebook_run ''precipitation.nc4'' ''precipitation_mean.nc4'' ex_files) =
     fst (notebook_run ''precipitation.nc4'' ''precipitation_mean.nc4'' ex_files_other) \<and>
   snd (notebook_run ''precipitation.nc4'' ''precipitation_mean.nc4'' ex_files)
       ''precipitation_mean.nc4'' =
     snd (notebook_run ''precipitation.nc4'' ''precipitation_mean.nc4'' ex_files_other)
       ''precipitation_mean.nc4''"
proof -
  have 1: "ex_files ''precipitation.nc4'' = ex_files_other ''precipitation.nc4''"
    by (simp add: ex_files_def ex_files_other_def)
  show ?thesis
    using run_deterministic [of ex_files "''precipitation.nc4''" ex_files_other
        "''precipitation_mean.nc4''"] 1 by simp
qed

end
